theory Spec2Isabelle
  imports Main "HOL-Library.Sublist"
begin

section \<open>Python strings and lists\<close>

text \<open>
  A Python \<open>str\<close> is modelled as a \<open>string\<close>: one \<open>char\<close> per character of the
  source text, a \<open>char\<close> standing for the code point of the same number. The model so
  covers the texts whose code points are below 256; the character classes of Python
  (\<open>str.isspace\<close>, the \<open>\w\<close> of \<open>re\<close>) are given in full on that range. Exceptions are
  values: a function of the source that can raise returns \<open>py_exn + 'a\<close>, with \<open>Inl\<close>
  for the exception.
\<close>

datatype py_exn = SyntaxError | IndexError | KeyError | OtherError

definition NL :: char where
  "NL = CHR 0x0A"

text \<open>\<open>s.split("\n")\<close>: never empty, one more element than there are newlines.\<close>

fun split_nl :: "string \<Rightarrow> string list" where
  "split_nl [] = [[]]"
| "split_nl (c # cs) =
     (if c = NL then [] # split_nl cs
      else (case split_nl cs of [] \<Rightarrow> [[c]] | l # ls \<Rightarrow> (c # l) # ls))"

text \<open>\<open>"\n".join(ls)\<close>.\<close>

fun join_nl :: "string list \<Rightarrow> string" where
  "join_nl [] = []"
| "join_nl [l] = l"
| "join_nl (l # m # ls) = l @ NL # join_nl (m # ls)"

text \<open>
  Slice bounds as Python normalises them: a negative bound counts from the end, and
  every bound is clamped to \<open>0 .. len\<close>.
\<close>

definition slice_bound :: "int \<Rightarrow> nat \<Rightarrow> nat" where
  "slice_bound i n = (if i < 0 then nat (max 0 (i + int n)) else min (nat i) n)"

text \<open>\<open>xs[a:b]\<close>.\<close>

definition py_slice :: "'a list \<Rightarrow> int \<Rightarrow> int \<Rightarrow> 'a list" where
  "py_slice xs a b =
     (let lo = slice_bound a (length xs); hi = slice_bound b (length xs)
      in take (hi - lo) (drop lo xs))"

text \<open>\<open>xs[a:b] = new\<close>: never raises; an empty range inserts at \<open>a\<close>.\<close>

definition slice_assign :: "'a list \<Rightarrow> int \<Rightarrow> int \<Rightarrow> 'a list \<Rightarrow> 'a list" where
  "slice_assign xs a b new =
     (let lo = slice_bound a (length xs); hi = max lo (slice_bound b (length xs))
      in take lo xs @ new @ drop hi xs)"

text \<open>\<open>xs[i]\<close> and \<open>xs[i] = v\<close>: a negative index counts from the end, out of range raises.\<close>

definition py_get :: "'a list \<Rightarrow> int \<Rightarrow> py_exn + 'a" where
  "py_get xs i =
     (let n = int (length xs); j = (if i < 0 then i + n else i)
      in if 0 \<le> j \<and> j < n then Inr (xs ! nat j) else Inl IndexError)"

definition py_set :: "'a list \<Rightarrow> int \<Rightarrow> 'a \<Rightarrow> py_exn + 'a list" where
  "py_set xs i v =
     (let n = int (length xs); j = (if i < 0 then i + n else i)
      in if 0 \<le> j \<and> j < n then Inr (xs[nat j := v]) else Inl IndexError)"

text \<open>\<open>s.find(sub)\<close>: the lowest index where \<open>sub\<close> occurs, or \<open>-1\<close>.\<close>

fun find_from :: "string \<Rightarrow> string \<Rightarrow> nat \<Rightarrow> int" where
  "find_from sub [] n = (if sub = [] then int n else - 1)"
| "find_from sub (c # cs) n =
     (if prefix sub (c # cs) then int n else find_from sub cs (Suc n))"

definition py_find :: "string \<Rightarrow> string \<Rightarrow> int" where
  "py_find s sub = find_from sub s 0"

text \<open>\<open>sub in s\<close>.\<close>

definition contains :: "string \<Rightarrow> string \<Rightarrow> bool" where
  "contains s sub = (py_find s sub \<noteq> - 1)"

text \<open>
  \<open>str.isspace\<close> on the code points below 256: tab, line feed, vertical tab, form feed,
  carriage return, the four separators \<open>0x1C .. 0x1F\<close>, the space, the next-line
  control \<open>0x85\<close> and the no-break space \<open>0xA0\<close>.
\<close>

definition is_space :: "char \<Rightarrow> bool" where
  "is_space c = (c \<in> set [CHR 0x09, CHR 0x0A, CHR 0x0B, CHR 0x0C, CHR 0x0D,
                            CHR 0x1C, CHR 0x1D, CHR 0x1E, CHR 0x1F, CHR 0x20,
                            CHR 0x85, CHR 0xA0])"

text \<open>\<open>s.lstrip(chars)\<close>, \<open>s.strip(chars)\<close> and \<open>s.strip()\<close>.\<close>

definition lstrip_chars :: "string \<Rightarrow> string \<Rightarrow> string" where
  "lstrip_chars chars s = dropWhile (\<lambda>c. c \<in> set chars) s"

definition strip_chars :: "string \<Rightarrow> string \<Rightarrow> string" where
  "strip_chars chars s =
     rev (dropWhile (\<lambda>c. c \<in> set chars) (rev (dropWhile (\<lambda>c. c \<in> set chars) s)))"

definition strip :: "string \<Rightarrow> string" where
  "strip s = rev (dropWhile is_space (rev (dropWhile is_space s)))"

text \<open>
  The leading run of blanks and tabs of a line, as the loop
  \<open>for char in line: if char in " \t": indent += char else: break\<close> collects it.
\<close>

definition leading_indent :: "string \<Rightarrow> string" where
  "leading_indent line = takeWhile (\<lambda>c. c = CHR 0x20 \<or> c = CHR 0x09) line"

text \<open>
  A \<open>for\<close> loop whose body can raise: the state is threaded through the elements in
  order, and the first exception ends the loop.
\<close>

fun for_each :: "('s \<Rightarrow> 'a \<Rightarrow> py_exn + 's) \<Rightarrow> 's \<Rightarrow> 'a list \<Rightarrow> py_exn + 's" where
  "for_each body s [] = Inr s"
| "for_each body s (x # xs) =
     (case body s x of Inl e \<Rightarrow> Inl e | Inr s' \<Rightarrow> for_each body s' xs)"

text \<open>
  A \<open>dict[int, str]\<close> is an association list of its items; \<open>map_of\<close> is the lookup.
  \<open>sorted(translations.keys(), reverse=True)\<close> lists each key once, largest first.
\<close>

type_synonym translation_map = "(int \<times> string) list"

definition keys_desc :: "translation_map \<Rightarrow> int list" where
  "keys_desc t = rev (sort (remdups (map fst t)))"

section \<open>The span model (base.py)\<close>

datatype CommentType = SINGLE_LINE | MULTI_LINE | DOCSTRING | JSDOC | DOC_COMMENT

record Comment =
  "text" :: string
  type :: CommentType
  line_start :: int
  line_end :: int
  column_start :: int
  column_end :: int
  original :: string

record TextBlock =
  "text" :: string
  line_start :: int
  line_end :: int
  is_code :: bool
  code_language :: string
  original :: string

record ParseResult =
  file_path :: string
  comments :: "Comment list"
  text_blocks :: "TextBlock list"
  raw_content :: string

text \<open>
  The constructors with \<open>__post_init__\<close>: an empty \<open>original\<close> is replaced by \<open>text\<close>.
\<close>

definition mk_Comment ::
  "string \<Rightarrow> CommentType \<Rightarrow> int \<Rightarrow> int \<Rightarrow> int \<Rightarrow> int \<Rightarrow> string \<Rightarrow> Comment" where
  "mk_Comment t ty ls le cs ce orig =
     \<lparr>Comment.text = t, type = ty, Comment.line_start = ls, Comment.line_end = le,
      column_start = cs, column_end = ce,
      Comment.original = (if orig = [] then t else orig)\<rparr>"

definition mk_TextBlock :: "string \<Rightarrow> int \<Rightarrow> int \<Rightarrow> bool \<Rightarrow> string \<Rightarrow> string \<Rightarrow> TextBlock" where
  "mk_TextBlock t ls le code lang orig =
     \<lparr>TextBlock.text = t, TextBlock.line_start = ls, TextBlock.line_end = le,
      is_code = code, code_language = lang,
      TextBlock.original = (if orig = [] then t else orig)\<rparr>"

text \<open>
  \<open>ParseResult(file_path=file_path or Path(""), raw_content=content)\<close>: a path is kept
  as its text, and \<open>Path("")\<close> is the current directory, whose text is a dot.
\<close>

definition new_result :: "string option \<Rightarrow> string \<Rightarrow> ParseResult" where
  "new_result path content =
     \<lparr>file_path = (case path of None \<Rightarrow> ''.'' | Some p \<Rightarrow> p),
      comments = [], text_blocks = [], raw_content = content\<rparr>"

section \<open>Markdown (parser/markdown.py)\<close>

text \<open>
  \<open>re.match(r"^```(\w*)", line)\<close>: the line starts with three backticks; group 1 is the
  longest run of word characters after them. The pattern is a \<open>str\<close>, so \<open>\w\<close> is the
  Unicode class: alphanumeric characters and the underscore. On the code points below
  256 these are the ASCII digits and letters, the underscore, the ordinal indicators
  \<open>0xAA\<close> and \<open>0xBA\<close>, the superscripts \<open>0xB2\<close>, \<open>0xB3\<close> and \<open>0xB9\<close>, the micro sign
  \<open>0xB5\<close>, the fractions \<open>0xBC .. 0xBE\<close> and the letters \<open>0xC0 .. 0xFF\<close> without the
  multiplication sign \<open>0xD7\<close> and the division sign \<open>0xF7\<close>.
\<close>

definition is_word_char :: "char \<Rightarrow> bool" where
  "is_word_char c =
     (let n = (of_char c :: nat)
      in (48 \<le> n \<and> n \<le> 57) \<or> (65 \<le> n \<and> n \<le> 90) \<or> n = 95 \<or> (97 \<le> n \<and> n \<le> 122)
         \<or> n = 170 \<or> (178 \<le> n \<and> n \<le> 179) \<or> n = 181 \<or> (185 \<le> n \<and> n \<le> 186)
         \<or> (188 \<le> n \<and> n \<le> 190) \<or> (192 \<le> n \<and> n \<le> 214)
         \<or> (216 \<le> n \<and> n \<le> 246) \<or> (248 \<le> n \<and> n \<le> 255))"

definition code_match :: "string \<Rightarrow> string option" where
  "code_match line =
     (if prefix ''```'' line then Some (takeWhile is_word_char (drop 3 line)) else None)"

text \<open>
  \<open>re.findall(r"<!--(.+?)-->", line, re.DOTALL)\<close>. After an opening \<open><!--\<close> the group
  takes one character and then as few more as possible up to the first \<open>-->\<close>; the
  search goes on behind that closing marker. Where no closing marker follows, the opener
  matches nothing and the search moves one character on.
\<close>

fun until_close :: "string \<Rightarrow> (string \<times> string) option" where
  "until_close [] = None"
| "until_close (c # cs) =
     (if prefix ''-->'' (c # cs) then Some ([], drop 3 (c # cs))
      else (case until_close cs of None \<Rightarrow> None | Some (g, r) \<Rightarrow> Some (c # g, r)))"

definition comment_body :: "string \<Rightarrow> (string \<times> string) option" where
  "comment_body s =
     (case s of [] \<Rightarrow> None
      | c # cs \<Rightarrow> (case until_close cs of None \<Rightarrow> None | Some (g, r) \<Rightarrow> Some (c # g, r)))"

lemma until_close_length: "until_close s = Some (g, r) \<Longrightarrow> length r < length s"
  by (induction s arbitrary: g r) (auto split: if_splits option.splits)

lemma comment_body_length: "comment_body s = Some (g, r) \<Longrightarrow> length r < length s"
  by (auto simp: comment_body_def split: list.splits option.splits
           dest: until_close_length)

function html_comments :: "string \<Rightarrow> string list" where
  "html_comments [] = []"
| "html_comments (c # cs) =
     (if prefix ''<!--'' (c # cs) then
        (case comment_body (drop 4 (c # cs)) of
           None \<Rightarrow> html_comments cs
         | Some (g, r) \<Rightarrow> g # html_comments r)
      else html_comments cs)"
  by pat_completeness auto
termination
proof (relation "measure length")
  fix c cs x2 x y
  assume "comment_body (drop 4 (c # cs)) = Some x2" and "(x, y) = x2"
  then have "length y < length (drop 4 (c # cs))"
    using comment_body_length [of "drop 4 (c # cs)" x y] by simp
  then show "(y, c # cs) \<in> measure length" by simp
qed auto

text \<open>The state of the line scan of \<open>parse\<close>: its local variables and the result.\<close>

record md_state =
  in_code_block :: bool
  code_lang :: string
  current_block_lines :: "string list"
  block_start :: int
  result :: ParseResult

definition append_block :: "TextBlock \<Rightarrow> ParseResult \<Rightarrow> ParseResult" where
  "append_block b r = r\<lparr>text_blocks := text_blocks r @ [b]\<rparr>"

definition append_comments :: "Comment list \<Rightarrow> ParseResult \<Rightarrow> ParseResult" where
  "append_comments cs r = r\<lparr>comments := comments r @ cs\<rparr>"

text \<open>The body of the loop \<open>for i, line in enumerate(lines, 1)\<close>.\<close>

definition md_line :: "md_state \<Rightarrow> int \<Rightarrow> string \<Rightarrow> md_state" where
  "md_line st i line =
     (case code_match line of
        Some lang \<Rightarrow>
          (if in_code_block st then
             (if current_block_lines st \<noteq> [] then
                st\<lparr>result := append_block
                       (mk_TextBlock (join_nl (current_block_lines st)) (block_start st)
                          (i - 1) True (code_lang st) []) (result st),
                   current_block_lines := [],
                   in_code_block := False\<rparr>
              else st\<lparr>in_code_block := False\<rparr>)
           else
             (if current_block_lines st \<noteq> [] then
                st\<lparr>result := append_block
                       (mk_TextBlock (join_nl (current_block_lines st)) (block_start st)
                          (i - 1) False [] []) (result st),
                   current_block_lines := [],
                   in_code_block := True, code_lang := lang, block_start := i\<rparr>
              else st\<lparr>in_code_block := True, code_lang := lang, block_start := i\<rparr>))
      | None \<Rightarrow>
          (if in_code_block st then
             st\<lparr>current_block_lines := current_block_lines st @ [line]\<rparr>
           else
             st\<lparr>result := append_comments
                    (map (\<lambda>comment_text. mk_Comment (strip comment_text) MULTI_LINE i i 0 0 [])
                       (html_comments line)) (result st),
                block_start := (if current_block_lines st = [] then i else block_start st),
                current_block_lines := current_block_lines st @ [line]\<rparr>))"

fun md_scan :: "md_state \<Rightarrow> int \<Rightarrow> string list \<Rightarrow> md_state" where
  "md_scan st i [] = st"
| "md_scan st i (line # rest) = md_scan (md_line st i line) (i + 1) rest"

definition md_init :: "string option \<Rightarrow> string \<Rightarrow> md_state" where
  "md_init path content =
     \<lparr>in_code_block = False, code_lang = [], current_block_lines = [], block_start = 0,
      result = new_result path content\<rparr>"

definition markdown_parse :: "string \<Rightarrow> string option \<Rightarrow> ParseResult" where
  "markdown_parse content path =
     (let lines = split_nl content;
          st = md_scan (md_init path content) 1 lines
      in if current_block_lines st \<noteq> [] then
           append_block
             (mk_TextBlock (join_nl (current_block_lines st)) (block_start st)
                (int (length lines)) (in_code_block st)
                (if in_code_block st then code_lang st else []) [])
             (result st)
         else result st)"

text \<open>
  The body of the loop of \<open>inject_translations\<close>, for one key: first the replacement of
  the lines of a block, then the whole body with its guards.
\<close>

definition md_rewrite :: "TextBlock \<Rightarrow> string \<Rightarrow> string list \<Rightarrow> string list" where
  "md_rewrite block translated_text lines =
     slice_assign lines (TextBlock.line_start block - 1) (TextBlock.line_end block)
       (split_nl translated_text)"

definition md_inject_step ::
  "ParseResult \<Rightarrow> translation_map \<Rightarrow> string list \<Rightarrow> int \<Rightarrow> py_exn + string list" where
  "md_inject_step pr t lines idx =
     (if idx \<ge> int (length (text_blocks pr)) then Inr lines
      else
        (case py_get (text_blocks pr) idx of
           Inl e \<Rightarrow> Inl e
         | Inr block \<Rightarrow>
             (if is_code block then Inr lines
              else
                (case map_of t idx of
                   None \<Rightarrow> Inl KeyError
                 | Some translated_text \<Rightarrow> Inr (md_rewrite block translated_text lines)))))"

definition markdown_inject_translations ::
  "string \<Rightarrow> translation_map \<Rightarrow> ParseResult \<Rightarrow> py_exn + string" where
  "markdown_inject_translations content t pr =
     (case for_each (md_inject_step pr t) (split_nl content) (keys_desc t) of
        Inl e \<Rightarrow> Inl e
      | Inr lines \<Rightarrow> Inr (join_nl lines))"

section \<open>Python (parser/python.py)\<close>

text \<open>
  The syntax tree comes from the libraries \<open>ast\<close> and \<open>ast_comments\<close>, which are not
  part of the repository: \<open>parse\<close> takes their results as parameters. A tree is the
  list of its nodes in the order of \<open>ast.walk\<close>, each node with the attributes that
  \<open>parse\<close> reads. For a function, class or module node these are the value of
  \<open>ast.get_docstring\<close> and the first statement of the body.
\<close>

record value_node =
  lineno :: int
  end_lineno :: "int option"
  col_offset :: int
  end_col_offset :: "int option"

datatype first_stmt = Expr bool value_node | NotExpr

datatype ast_node =
    CommentNode string int int
  | ScopeNode "string option" "first_stmt option"
  | OtherNode

definition dquote3 :: string where
  "dquote3 = [CHR 0x22, CHR 0x22, CHR 0x22]"

definition squote3 :: string where
  "squote3 = [CHR 0x27, CHR 0x27, CHR 0x27]"

definition detect_quote_style :: "string \<Rightarrow> string \<Rightarrow> string" where
  "detect_quote_style content docstring =
     (let pos = py_find content docstring
      in if pos \<le> 0 then dquote3
         else
           (let before_pos = py_slice content (max 0 (pos - 10)) pos
            in if contains before_pos dquote3 then dquote3 else squote3))"

text \<open>\<open>getattr(doc_node, "end_lineno", doc_node.lineno) or doc_node.lineno\<close>.\<close>

definition doc_line_end :: "value_node \<Rightarrow> int" where
  "doc_line_end d =
     (case end_lineno d of None \<Rightarrow> lineno d | Some e \<Rightarrow> if e = 0 then lineno d else e)"

text \<open>The two loops over \<open>ast.walk(tree)\<close>, each giving the comments it appends.\<close>

fun walk_comments :: "ast_node list \<Rightarrow> Comment list" where
  "walk_comments [] = []"
| "walk_comments (CommentNode comment_text ln col # ns) =
     mk_Comment (strip (lstrip_chars ''#'' comment_text)) SINGLE_LINE ln ln col
       (col + int (length comment_text)) comment_text # walk_comments ns"
| "walk_comments (n # ns) = walk_comments ns"

fun walk_docstrings :: "string \<Rightarrow> ast_node list \<Rightarrow> Comment list" where
  "walk_docstrings content [] = []"
| "walk_docstrings content (ScopeNode (Some docstring) (Some (Expr True doc_node)) # ns) =
     (if docstring = [] then walk_docstrings content ns
      else
        (let quote_style = detect_quote_style content docstring
         in mk_Comment docstring DOCSTRING (lineno doc_node) (doc_line_end doc_node)
              (col_offset doc_node)
              (case end_col_offset doc_node of None \<Rightarrow> 0 | Some c \<Rightarrow> c)
              (quote_style @ docstring @ quote_style) # walk_docstrings content ns))"
| "walk_docstrings content (n # ns) = walk_docstrings content ns"

fun walk_docstrings_standard :: "ast_node list \<Rightarrow> Comment list" where
  "walk_docstrings_standard [] = []"
| "walk_docstrings_standard (ScopeNode (Some docstring) (Some (Expr c doc_node)) # ns) =
     (if docstring = [] then walk_docstrings_standard ns
      else mk_Comment docstring DOCSTRING (lineno doc_node) (doc_line_end doc_node) 0 0 []
             # walk_docstrings_standard ns)"
| "walk_docstrings_standard (n # ns) = walk_docstrings_standard ns"

text \<open>\<open>try: tree = parse(content) except SyntaxError: return result\<close>; any other exception
  is not caught.\<close>

definition parse_standard ::
  "(string \<Rightarrow> py_exn + ast_node list) \<Rightarrow> string \<Rightarrow> ParseResult \<Rightarrow> py_exn + ParseResult" where
  "parse_standard ast_parse content res =
     (case ast_parse content of
        Inl e \<Rightarrow> (if e = SyntaxError then Inr res else Inl e)
      | Inr tree \<Rightarrow> Inr (append_comments (walk_docstrings_standard tree) res))"

definition python_parse ::
  "bool \<Rightarrow> (string \<Rightarrow> py_exn + ast_node list) \<Rightarrow> (string \<Rightarrow> py_exn + ast_node list)
     \<Rightarrow> string \<Rightarrow> string option \<Rightarrow> py_exn + ParseResult" where
  "python_parse HAS_AST_COMMENTS astc_parse ast_parse content path =
     (let res = new_result path content
      in if \<not> HAS_AST_COMMENTS then parse_standard ast_parse content res
         else
           (case astc_parse content of
              Inl e \<Rightarrow> (if e = SyntaxError then Inr res else Inl e)
            | Inr tree \<Rightarrow>
                (let res1 = append_comments (walk_comments tree) res;
                     res2 = append_comments (walk_docstrings content tree) res1
                 in Inr (res2\<lparr>comments := sort_key Comment.line_start (comments res2)\<rparr>))))"

text \<open>
  The body of the loop of \<open>inject_translations\<close>, for one key: first what is done to the
  lines for a comment and its translation, then the whole body with its guards.
\<close>

definition py_rewrite :: "Comment \<Rightarrow> string \<Rightarrow> string list \<Rightarrow> py_exn + string list" where
  "py_rewrite comment translated lines =
     (let start_line = Comment.line_start comment - 1;
          end_line = Comment.line_end comment - 1
      in if type comment = SINGLE_LINE then
           (case py_get lines start_line of
              Inl e \<Rightarrow> Inl e
            | Inr original_line \<Rightarrow>
                (let hash_pos = py_find original_line ''#''
                 in if hash_pos = - 1 then Inr lines
                    else py_set lines start_line
                           (py_slice original_line 0 (hash_pos + 1) @ '' '' @ translated)))
         else if type comment = DOCSTRING then
           (let quote = (if contains (Comment.original comment) dquote3
                         then dquote3 else squote3)
            in case py_get lines start_line of
                 Inl e \<Rightarrow> Inl e
               | Inr original_first \<Rightarrow>
                   (let indent = leading_indent original_first
                    in if start_line = end_line then
                         py_set lines start_line (indent @ quote @ translated @ quote)
                       else
                         Inr (slice_assign lines start_line (end_line + 1)
                                ([indent @ quote]
                                 @ map (\<lambda>trans_line. indent @ ''    '' @ trans_line)
                                     (split_nl translated)
                                 @ [indent @ quote]))))
         else if type comment = MULTI_LINE then
           Inr (slice_assign lines start_line (end_line + 1) (split_nl translated))
         else Inr lines)"

definition py_inject_step ::
  "ParseResult \<Rightarrow> translation_map \<Rightarrow> string list \<Rightarrow> int \<Rightarrow> py_exn + string list" where
  "py_inject_step pr t lines idx =
     (if idx \<ge> int (length (comments pr)) then Inr lines
      else
        (case py_get (comments pr) idx of
           Inl e \<Rightarrow> Inl e
         | Inr comment \<Rightarrow>
             (case map_of t idx of
                None \<Rightarrow> Inl KeyError
              | Some translated \<Rightarrow> py_rewrite comment translated lines)))"

definition python_inject_translations ::
  "string \<Rightarrow> translation_map \<Rightarrow> ParseResult \<Rightarrow> py_exn + string" where
  "python_inject_translations content t pr =
     (case for_each (py_inject_step pr t) (split_nl content) (keys_desc t) of
        Inl e \<Rightarrow> Inl e
      | Inr lines \<Rightarrow> Inr (join_nl lines))"

section \<open>C and C++ (parser/c_cpp.py)\<close>

text \<open>
  The tree comes from the library \<open>tree_sitter\<close>, which is not part of the repository:
  \<open>parse\<close> takes the outcome of building it as a parameter. A node has its type, the
  outcome of decoding its source text (\<open>node.text.decode("utf-8")\<close>, the text or the
  exception raised), its start and end points (row, column) and its children.
\<close>

datatype ts_node =
  Node (node_type: string) (node_text: "py_exn + string") (start_point: "nat \<times> nat")
       (end_point: "nat \<times> nat") (children: "ts_node list")

definition clean_block :: "string \<Rightarrow> string" where
  "clean_block comment =
     (let txt = strip (strip_chars ''*/'' (strip_chars ''/*'' comment))
      in strip (join_nl
           (map (\<lambda>line. let l = strip line in if prefix ''*'' l then strip (drop 1 l) else l)
              (split_nl txt))))"

definition clean_comment_text :: "string \<Rightarrow> CommentType \<Rightarrow> string" where
  "clean_comment_text comment comment_type =
     (if comment_type = SINGLE_LINE then strip (lstrip_chars ''/'' comment)
      else if comment_type = DOC_COMMENT then
        (if prefix ''///'' comment then strip (strip_chars ''/'' comment)
         else clean_block comment)
      else if comment_type = MULTI_LINE then clean_block comment
      else comment)"

definition classify :: "string \<Rightarrow> CommentType" where
  "classify comment_text =
     (if prefix ''/**'' comment_text \<or> prefix ''/*!'' comment_text then DOC_COMMENT
      else if prefix ''///'' comment_text then DOC_COMMENT
      else if prefix ''/*'' comment_text then MULTI_LINE
      else SINGLE_LINE)"

definition comment_of_node :: "ts_node \<Rightarrow> string \<Rightarrow> Comment" where
  "comment_of_node node comment_text =
     (let comment_type = classify comment_text
      in mk_Comment (clean_comment_text comment_text comment_type) comment_type
           (int (fst (start_point node)) + 1) (int (fst (end_point node)) + 1)
           (int (snd (start_point node))) (int (snd (end_point node))) comment_text)"

text \<open>
  \<open>_extract_comments\<close> appends to the result it is given. Where decoding the text of a
  comment node raises, the walk ends there: the outcome is the exception together with
  the result as it stands, with the comments appended so far.
\<close>

fun extract_comments :: "ts_node \<Rightarrow> ParseResult \<Rightarrow> py_exn option \<times> ParseResult"
  and extract_children :: "ts_node list \<Rightarrow> ParseResult \<Rightarrow> py_exn option \<times> ParseResult" where
  "extract_comments (Node ty tx sp ep ch) res =
     (if ty = ''comment'' then
        (case tx of
           Inl e \<Rightarrow> (Some e, res)
         | Inr comment_text \<Rightarrow>
             extract_children ch
               (append_comments [comment_of_node (Node ty tx sp ep ch) comment_text] res))
      else extract_children ch res)"
| "extract_children [] res = (None, res)"
| "extract_children (child # rest) res =
     (case extract_comments child res of
        (Some e, res') \<Rightarrow> (Some e, res')
      | (None, res') \<Rightarrow> extract_children rest res')"

text \<open>
  \<open>try: ... except Exception: pass\<close>, then the sort. An exception from building the tree
  leaves the result empty; an exception from the walk leaves the comments appended
  before it.
\<close>

definition c_cpp_parse ::
  "(string \<Rightarrow> py_exn + ts_node) \<Rightarrow> string \<Rightarrow> string option \<Rightarrow> ParseResult" where
  "c_cpp_parse ts_parse content path =
     (let res = new_result path content;
          res1 = (case ts_parse content of
                    Inl e \<Rightarrow> res
                  | Inr root_node \<Rightarrow> snd (extract_comments root_node res))
      in res1\<lparr>comments := sort_key Comment.line_start (comments res1)\<rparr>)"

text \<open>
  The body of the loop of \<open>inject_translations\<close>, for one key: first what is done to the
  lines for a comment and its translation, then the whole body with its guards.
\<close>

definition c_rewrite :: "Comment \<Rightarrow> string \<Rightarrow> string list \<Rightarrow> py_exn + string list" where
  "c_rewrite comment translated lines =
     (let start_line = Comment.line_start comment - 1;
          end_line = Comment.line_end comment - 1
      in if type comment = SINGLE_LINE then
           (case py_get lines start_line of
              Inl e \<Rightarrow> Inl e
            | Inr original_line \<Rightarrow>
                (let slash_pos = py_find original_line ''//''
                 in py_set lines start_line
                      (py_slice original_line 0 slash_pos @ ''// '' @ translated)))
         else if type comment = DOC_COMMENT then
           (case py_get lines start_line of
              Inl e \<Rightarrow> Inl e
            | Inr original_first \<Rightarrow>
                (let indent = leading_indent original_first;
                     trans_lines = split_nl translated
                 in if prefix ''///'' (Comment.original comment) then
                      Inr (slice_assign lines start_line (end_line + 1)
                             (map (\<lambda>line. indent @ ''/// '' @ line) trans_lines))
                    else if length trans_lines = 1 then
                      py_set lines start_line (indent @ ''/** '' @ translated @ '' */'')
                    else
                      Inr (slice_assign lines start_line (end_line + 1)
                             ([indent @ ''/**'']
                              @ map (\<lambda>trans_line. indent @ '' * '' @ trans_line) trans_lines
                              @ [indent @ '' */'']))))
         else if type comment = MULTI_LINE then
           (case py_get lines start_line of
              Inl e \<Rightarrow> Inl e
            | Inr original_first \<Rightarrow>
                (let indent = leading_indent original_first;
                     trans_lines = split_nl translated
                 in if length trans_lines = 1 then
                      py_set lines start_line (indent @ ''/* '' @ translated @ '' */'')
                    else
                      Inr (slice_assign lines start_line (end_line + 1)
                             ([indent @ ''/*'']
                              @ map (\<lambda>trans_line. indent @ ''   '' @ trans_line) trans_lines
                              @ [indent @ '' */'']))))
         else Inr lines)"

definition c_inject_step ::
  "ParseResult \<Rightarrow> translation_map \<Rightarrow> string list \<Rightarrow> int \<Rightarrow> py_exn + string list" where
  "c_inject_step pr t lines idx =
     (if idx \<ge> int (length (comments pr)) then Inr lines
      else
        (case py_get (comments pr) idx of
           Inl e \<Rightarrow> Inl e
         | Inr comment \<Rightarrow>
             (case map_of t idx of
                None \<Rightarrow> Inl KeyError
              | Some translated \<Rightarrow> c_rewrite comment translated lines)))"

definition c_cpp_inject_translations ::
  "string \<Rightarrow> translation_map \<Rightarrow> ParseResult \<Rightarrow> py_exn + string" where
  "c_cpp_inject_translations content t pr =
     (case for_each (c_inject_step pr t) (split_nl content) (keys_desc t) of
        Inl e \<Rightarrow> Inl e
      | Inr lines \<Rightarrow> Inr (join_nl lines))"

section \<open>Notions used in the statements\<close>

text \<open>The items of a translations map whose key is below the number of spans.\<close>

definition in_range_keys :: "nat \<Rightarrow> translation_map \<Rightarrow> translation_map" where
  "in_range_keys n t = filter (\<lambda>(k, v). k < int n) t"

text \<open>The text whose lines \<open>s .. e\<close> (counted from 1) are replaced by \<open>new\<close>.\<close>

definition rewritten :: "string list \<Rightarrow> nat \<Rightarrow> nat \<Rightarrow> string list \<Rightarrow> string" where
  "rewritten lines s e new = join_nl (take (s - 1) lines @ new @ drop e lines)"

text \<open>
  Two small C files as \<open>tree_sitter\<close> sees them: an indented \<open>///\<close> comment, and an
  indented \<open>/** */\<close> comment, each followed by a declaration.
\<close>

definition example_line_doc :: "string \<Rightarrow> py_exn + ts_node" where
  "example_line_doc c = Inr (Node ''translation_unit'' (Inr c) (0, 0) (1, 6)
     [Node ''comment'' (Inr ''/// a'') (0, 2) (0, 7) [],
      Node ''declaration'' (Inr ''int x;'') (1, 0) (1, 6) []])"

definition example_block_doc :: "string \<Rightarrow> py_exn + ts_node" where
  "example_block_doc c = Inr (Node ''translation_unit'' (Inr c) (0, 0) (1, 6)
     [Node ''comment'' (Inr ''/** a */'') (0, 2) (0, 10) [],
      Node ''declaration'' (Inr ''int x;'') (1, 0) (1, 6) []])"

text \<open>
  A C file that cannot be parsed: a comment line, then a function head whose parenthesis
  and brace are never closed. \<open>tree_sitter\<close> does not raise on it; it returns a tree
  that holds the comment node and an \<open>ERROR\<close> node for the rest. The second tree is one
  in which decoding the text of the second comment raises.
\<close>

definition example_malformed_c :: "string \<Rightarrow> py_exn + ts_node" where
  "example_malformed_c c = Inr (Node ''translation_unit'' (Inr c) (0, 0) (1, 8)
     [Node ''comment'' (Inr ''// hi'') (0, 0) (0, 5) [],
      Node ''ERROR'' (Inr ''int f( {'') (1, 0) (1, 8) []])"

definition example_undecodable :: "string \<Rightarrow> py_exn + ts_node" where
  "example_undecodable c = Inr (Node ''translation_unit'' (Inr c) (0, 0) (2, 6)
     [Node ''comment'' (Inr ''// a'') (0, 0) (0, 4) [],
      Node ''comment'' (Inl OtherError) (1, 0) (1, 4) [],
      Node ''comment'' (Inr ''// c'') (2, 0) (2, 4) []])"

text \<open>The comment nodes of a tree, in the order in which \<open>_extract_comments\<close> meets them.\<close>

fun comment_nodes :: "ts_node \<Rightarrow> ts_node list" where
  "comment_nodes (Node ty tx sp ep ch) =
     (if ty = ''comment'' then [Node ty tx sp ep ch] else []) @ concat (map comment_nodes ch)"



text \<open>
  A Python file with a function whose docstring is written with three single quotes,
  followed by a comment line, and its nodes as \<open>ast_comments\<close> gives them.
\<close>

definition example_py_tree :: "ast_node list" where
  "example_py_tree =
     [ScopeNode None (Some NotExpr),
      ScopeNode (Some ''doc'')
        (Some (Expr True \<lparr>lineno = 2, end_lineno = Some 2, col_offset = 4,
                            end_col_offset = Some 13\<rparr>)),
      CommentNode ''# a'' 3 0]"

definition example_py :: string where
  "example_py = ''def f():\<newline>    '' @ squote3 @ ''doc'' @ squote3 @ ''\<newline># a''"

text \<open>
  The lines that the Python injector emits for a docstring: one line when the docstring
  was on one line, otherwise an opening quote line, the translated lines indented by four
  more blanks, and a closing quote line.
\<close>

definition docstring_lines :: "string \<Rightarrow> string \<Rightarrow> string \<Rightarrow> bool \<Rightarrow> string list" where
  "docstring_lines indent quote translated one_line =
     (if one_line then [indent @ quote @ translated @ quote]
      else [indent @ quote] @ map (\<lambda>l. indent @ ''    '' @ l) (split_nl translated)
           @ [indent @ quote])"

text \<open>
  Two more Python files with their nodes. In the first, a module-level assignment of a
  string written with three double quotes comes before a function whose docstring has the
  same text and is written with three single quotes. In the second, the docstring written
  with three single quotes spans two indented lines, and \<open>ast.get_docstring\<close> returns it
  without the indentation.
\<close>

definition example_shadowed_py :: string where
  "example_shadowed_py =
     ''x = '' @ dquote3 @ ''doc'' @ dquote3 @ ''\<newline>def f():\<newline>    ''
     @ squote3 @ ''doc'' @ squote3 @ ''\<newline>''"

definition example_shadowed_tree :: "ast_node list" where
  "example_shadowed_tree =
     [ScopeNode None (Some NotExpr),
      OtherNode,
      ScopeNode (Some ''doc'')
        (Some (Expr True \<lparr>lineno = 3, end_lineno = Some 3, col_offset = 4,
                            end_col_offset = Some 13\<rparr>)),
      OtherNode]"

definition example_multiline_py :: string where
  "example_multiline_py =
     ''def f():\<newline>    '' @ squote3 @ ''Hello\<newline>    world'' @ squote3 @ ''\<newline>''"

definition example_multiline_tree :: "ast_node list" where
  "example_multiline_tree =
     [ScopeNode None (Some NotExpr),
      ScopeNode (Some ''Hello\<newline>world'')
        (Some (Expr True \<lparr>lineno = 2, end_lineno = Some 3, col_offset = 4,
                            end_col_offset = Some 12\<rparr>))]"

text \<open>
  A Python file with a function whose docstring is written with three double quotes, and
  its nodes as \<open>ast\<close> gives them.
\<close>

definition example_double_py :: string where
  "example_double_py = ''def f():\<newline>    '' @ dquote3 @ ''doc'' @ dquote3"

definition example_double_tree :: "ast_node list" where
  "example_double_tree =
     [ScopeNode None (Some NotExpr),
      ScopeNode (Some ''doc'')
        (Some (Expr True \<lparr>lineno = 2, end_lineno = Some 2, col_offset = 4,
                            end_col_offset = Some 13\<rparr>))]"

text \<open>
  A fence line, and the number of fence lines in a list of lines: a line is inside a
  fence when an odd number of fence lines precedes it.
\<close>

definition is_fence :: "string \<Rightarrow> bool" where
  "is_fence line = (code_match line \<noteq> None)"

definition fences :: "string list \<Rightarrow> nat" where
  "fences ls = length (filter is_fence ls)"

text \<open>
  Text blocks whose line ranges are not empty, start at line 1 or later, and follow one
  another without overlap; and the invariant of the line scan that keeps them so.
\<close>

definition ordered_blocks :: "TextBlock list \<Rightarrow> bool" where
  "ordered_blocks bs =
     (sorted_wrt (\<lambda>a b. TextBlock.line_end a < TextBlock.line_start b) bs
      \<and> list_all (\<lambda>b. 1 \<le> TextBlock.line_start b \<and> TextBlock.line_start b \<le> TextBlock.line_end b) bs)"

definition ends_below :: "int \<Rightarrow> TextBlock list \<Rightarrow> bool" where
  "ends_below m bs = list_all (\<lambda>b. TextBlock.line_end b < m) bs"

text \<open>The first line number that a later block may start at.\<close>
definition floor_line :: "md_state \<Rightarrow> int \<Rightarrow> int" where
  "floor_line st n =
     (if current_block_lines st = [] \<and> \<not> in_code_block st then n + 1 else block_start st)"

definition order_inv :: "int \<Rightarrow> md_state \<Rightarrow> bool" where
  "order_inv n st =
     (ordered_blocks (text_blocks (result st))
      \<and> ends_below (floor_line st n) (text_blocks (result st))
      \<and> 1 \<le> floor_line st n \<and> floor_line st n \<le> n + 1
      \<and> (current_block_lines st \<noteq> [] \<longrightarrow> block_start st \<le> n))"

text \<open>
  Two more invariants of the line scan, after \<open>n\<close> lines. The lines collected for the
  pending block hold no newline, and a pending prose block reaches up to line \<open>n\<close>. And
  line \<open>k\<close> with the text \<open>line\<close> is in a prose block, either one already in the result
  or the pending one.
\<close>

definition run_inv :: "int \<Rightarrow> md_state \<Rightarrow> bool" where
  "run_inv n st =
     (list_all (\<lambda>l. NL \<notin> set l) (current_block_lines st)
      \<and> (\<not> in_code_block st \<and> current_block_lines st \<noteq> [] \<longrightarrow>
           block_start st + int (length (current_block_lines st)) = n + 1))"

definition kept :: "int \<Rightarrow> string \<Rightarrow> md_state \<Rightarrow> int \<Rightarrow> bool" where
  "kept k line st n =
     ((\<exists>b \<in> set (text_blocks (result st)).
          \<not> is_code b \<and> TextBlock.line_start b \<le> k \<and> k \<le> TextBlock.line_end b
          \<and> split_nl (TextBlock.text b) ! nat (k - TextBlock.line_start b) = line)
      \<or> (\<not> in_code_block st \<and> block_start st \<le> k
          \<and> nat (k - block_start st) < length (current_block_lines st)
          \<and> current_block_lines st ! nat (k - block_start st) = line
          \<and> run_inv n st))"

section \<open>Splitting and joining lines\<close>

lemma split_nl_not_Nil: "split_nl s \<noteq> []"
  by (induction s) (auto split: list.splits)

lemma join_split_nl: "join_nl (split_nl s) = s"
proof (induction s)
  case Nil
  show ?case by simp
next
  case (Cons c cs)
  obtain l ls where e: "split_nl cs = l # ls"
    using split_nl_not_Nil [of cs] by (cases "split_nl cs") auto
  show ?case
  proof (cases "c = NL")
    case True
    with e Cons show ?thesis by simp
  next
    case False
    with e Cons show ?thesis by (cases ls) auto
  qed
qed

lemma keys_desc_Nil: "keys_desc [] = []"
  by (simp add: keys_desc_def)

section \<open>Character classes beyond ASCII\<close>

text \<open>
  The language tag of a fence opener may hold letters beyond ASCII, here \<open>0xE9\<close>, and
  \<open>strip\<close> removes the no-break space \<open>0xA0\<close> and the next-line control \<open>0x85\<close>.
\<close>

lemma code_match_latin1_tag:
  "code_match (''```'' @ [CHR 0xE9, CHR ''t'', CHR 0xE9] @ '' x'') = Some [CHR 0xE9, CHR ''t'', CHR 0xE9]"
  by code_simp

lemma code_language_latin1_tag:
  "map code_language
     (text_blocks (markdown_parse (''```'' @ [CHR 0xE9, CHR ''t'', CHR 0xE9] @ ''\<newline>x'') None)) =
     [[CHR 0xE9, CHR ''t'', CHR 0xE9]]"
  by code_simp

lemma strip_latin1_space: "strip ([CHR 0xA0] @ ''hi'' @ [CHR 0x85]) = ''hi''"
  by code_simp

lemma html_comment_latin1_space:
  "comments (markdown_parse (''<!--'' @ [CHR 0xA0] @ ''hi'' @ [CHR 0x85] @ ''-->'') None) =
     [mk_Comment ''hi'' MULTI_LINE 1 1 0 0 []]"
  by code_simp

section \<open>Round trip with no translations\<close>

text \<open>
  Claim C1. With an empty translations map every injector returns the content it was
  given, character for character: the lines are split and joined again and nothing
  else happens. This holds for the result of \<open>parse\<close> of the Markdown and the C/C++
  parser, and for every parse result given to the Python injector, so also for the one
  that the Python \<open>parse\<close> returns whenever it returns one.
\<close>

theorem roundtrip_identity:
  "markdown_inject_translations content [] (markdown_parse content path) = Inr content
   \<and> python_inject_translations content [] pr = Inr content
   \<and> (case python_parse HAS_AST_COMMENTS astc_parse ast_parse content path of
         Inl e \<Rightarrow> True
       | Inr res \<Rightarrow> python_inject_translations content [] res = Inr content)
   \<and> c_cpp_inject_translations content [] (c_cpp_parse ts_parse content path) = Inr content"
  by (simp add: markdown_inject_translations_def python_inject_translations_def
        c_cpp_inject_translations_def keys_desc_Nil join_split_nl split: sum.splits)

section \<open>Keys beyond the span list\<close>

lemma map_of_in_range: "k < int n \<Longrightarrow> map_of (in_range_keys n t) k = map_of t k"
  by (induction t) (auto simp: in_range_keys_def)

lemma keys_desc_in_range:
  "keys_desc (in_range_keys n t) = filter (\<lambda>k. k < int n) (keys_desc t)"
proof -
  have "map fst (in_range_keys n t) = filter (\<lambda>k. k < int n) (map fst t)"
    by (induction t) (auto simp: in_range_keys_def)
  then show ?thesis
    by (simp add: keys_desc_def remdups_filter filter_sort flip: rev_filter)
qed

lemma for_each_filter:
  assumes skip: "\<And>s k. \<not> p k \<Longrightarrow> body s k = Inr s"
    and same: "\<And>s k. p k \<Longrightarrow> body s k = body' s k"
  shows "for_each body s ks = for_each body' s (filter p ks)"
  by (induction ks arbitrary: s) (auto simp: skip same split: sum.splits)

lemma md_stale:
  "markdown_inject_translations content t pr =
   markdown_inject_translations content (in_range_keys (length (text_blocks pr)) t) pr"
proof -
  let ?n = "length (text_blocks pr)"
  have "for_each (md_inject_step pr t) (split_nl content) (keys_desc t) =
        for_each (md_inject_step pr (in_range_keys ?n t)) (split_nl content)
          (filter (\<lambda>k. k < int ?n) (keys_desc t))"
    by (rule for_each_filter)
       (auto simp: md_inject_step_def map_of_in_range split: sum.splits)
  then show ?thesis
    by (simp add: markdown_inject_translations_def keys_desc_in_range)
qed

lemma py_stale:
  "python_inject_translations content t pr =
   python_inject_translations content (in_range_keys (length (comments pr)) t) pr"
proof -
  let ?n = "length (comments pr)"
  have "for_each (py_inject_step pr t) (split_nl content) (keys_desc t) =
        for_each (py_inject_step pr (in_range_keys ?n t)) (split_nl content)
          (filter (\<lambda>k. k < int ?n) (keys_desc t))"
    by (rule for_each_filter)
       (auto simp: py_inject_step_def map_of_in_range split: sum.splits)
  then show ?thesis
    by (simp add: python_inject_translations_def keys_desc_in_range)
qed

lemma c_stale:
  "c_cpp_inject_translations content t pr =
   c_cpp_inject_translations content (in_range_keys (length (comments pr)) t) pr"
proof -
  let ?n = "length (comments pr)"
  have "for_each (c_inject_step pr t) (split_nl content) (keys_desc t) =
        for_each (c_inject_step pr (in_range_keys ?n t)) (split_nl content)
          (filter (\<lambda>k. k < int ?n) (keys_desc t))"
    by (rule for_each_filter)
       (auto simp: c_inject_step_def map_of_in_range split: sum.splits)
  then show ?thesis
    by (simp add: c_cpp_inject_translations_def keys_desc_in_range)
qed

text \<open>
  Claim C5. A key of the translations map that is greater than or equal to the length of
  the span list (the text blocks for Markdown, the comments for Python and C/C++) is
  skipped: every injector gives the same outcome, the same text or the same exception,
  as on the map restricted to the keys below that length.
\<close>

theorem stale_keys_ignored:
  "markdown_inject_translations content t pr =
     markdown_inject_translations content (in_range_keys (length (text_blocks pr)) t) pr
   \<and> python_inject_translations content t pr =
     python_inject_translations content (in_range_keys (length (comments pr)) t) pr
   \<and> c_cpp_inject_translations content t pr =
     c_cpp_inject_translations content (in_range_keys (length (comments pr)) t) pr"
  using md_stale py_stale c_stale by blast

section \<open>Negative keys\<close>

lemma keys_desc_single: "keys_desc [(k, v)] = [k]"
  by (simp add: keys_desc_def)

lemma py_get_from_end:
  assumes "1 \<le> k" "k \<le> length xs"
  shows "py_get xs (- int k) = Inr (rev xs ! (k - 1))"
proof -
  have "rev xs ! (k - 1) = xs ! (length xs - Suc (k - 1))"
    using assms by (intro rev_nth) auto
  moreover have "nat (int (length xs) - int k) = length xs - Suc (k - 1)"
    using assms by auto
  ultimately show ?thesis
    using assms by (auto simp: py_get_def Let_def)
qed

lemma md_from_end:
  assumes "1 \<le> k" "k \<le> length (text_blocks pr)"
  shows "markdown_inject_translations content [(- int k, tr)] pr =
     (if is_code (rev (text_blocks pr) ! (k - 1)) then Inr content
      else Inr (join_nl (md_rewrite (rev (text_blocks pr) ! (k - 1)) tr (split_nl content))))"
  using assms py_get_from_end [OF assms]
  by (simp add: markdown_inject_translations_def keys_desc_single md_inject_step_def
        join_split_nl)

lemma py_from_end:
  assumes "1 \<le> k" "k \<le> length (comments pr)"
  shows "python_inject_translations content [(- int k, tr)] pr =
     (case py_rewrite (rev (comments pr) ! (k - 1)) tr (split_nl content) of
        Inl e \<Rightarrow> Inl e
      | Inr lines \<Rightarrow> Inr (join_nl lines))"
  using assms py_get_from_end [OF assms]
  by (simp add: python_inject_translations_def keys_desc_single py_inject_step_def
        split: sum.splits)

lemma c_from_end:
  assumes "1 \<le> k" "k \<le> length (comments pr)"
  shows "c_cpp_inject_translations content [(- int k, tr)] pr =
     (case c_rewrite (rev (comments pr) ! (k - 1)) tr (split_nl content) of
        Inl e \<Rightarrow> Inl e
      | Inr lines \<Rightarrow> Inr (join_nl lines))"
  using assms py_get_from_end [OF assms]
  by (simp add: c_cpp_inject_translations_def keys_desc_single c_inject_step_def
        split: sum.splits)

text \<open>
  Claim C9. The bounds check of every injector only tests \<open>idx >= len\<close>, so a negative
  key is not skipped. Where the span list has at least \<open>k\<close> elements, the key \<open>-k\<close> reads
  the \<open>k\<close>-th span from the end of the list, and the injector rewrites the lines for that
  span with the text stored under \<open>-k\<close>: the Markdown injector replaces the lines of that
  block unless it is a code block, the Python and the C/C++ injector do to the lines what
  they do for that comment.
\<close>

theorem negative_key_counts_from_end:
  assumes "1 \<le> k"
  shows "(k \<le> length (text_blocks pr) \<longrightarrow>
            markdown_inject_translations content [(- int k, tr)] pr =
            (if is_code (rev (text_blocks pr) ! (k - 1)) then Inr content
             else Inr (join_nl (md_rewrite (rev (text_blocks pr) ! (k - 1)) tr
                                  (split_nl content)))))
         \<and> (k \<le> length (comments pr) \<longrightarrow>
            python_inject_translations content [(- int k, tr)] pr =
            (case py_rewrite (rev (comments pr) ! (k - 1)) tr (split_nl content) of
               Inl e \<Rightarrow> Inl e
             | Inr lines \<Rightarrow> Inr (join_nl lines))
            \<and> c_cpp_inject_translations content [(- int k, tr)] pr =
              (case c_rewrite (rev (comments pr) ! (k - 1)) tr (split_nl content) of
                 Inl e \<Rightarrow> Inl e
               | Inr lines \<Rightarrow> Inr (join_nl lines)))"
  using assms md_from_end py_from_end c_from_end by blast

theorem negative_key_counts_from_end_witness:
  "markdown_inject_translations ''first\<newline>```\<newline>code\<newline>```\<newline>last'' [(- 1, ''z'')]
       (markdown_parse ''first\<newline>```\<newline>code\<newline>```\<newline>last'' None)
     = Inr ''first\<newline>```\<newline>code\<newline>```\<newline>z''
   \<and> markdown_inject_translations ''first\<newline>```\<newline>code\<newline>```\<newline>last'' [(- 3, ''z'')]
       (markdown_parse ''first\<newline>```\<newline>code\<newline>```\<newline>last'' None)
     = Inr ''z\<newline>```\<newline>code\<newline>```\<newline>last''
   \<and> python_inject_translations ''# a\<newline># b'' [(- 1, ''z'')]
         (append_comments
            [mk_Comment ''a'' SINGLE_LINE 1 1 0 3 ''# a'', mk_Comment ''b'' SINGLE_LINE 2 2 0 3 ''# b'']
            (new_result None ''# a\<newline># b''))
       = Inr ''# a\<newline># z''
   \<and> c_cpp_inject_translations ''// a\<newline>// b'' [(- 2, ''z'')]
         (append_comments
            [mk_Comment ''a'' SINGLE_LINE 1 1 0 4 ''// a'', mk_Comment ''b'' SINGLE_LINE 2 2 0 4 ''// b'']
            (new_result None ''// a\<newline>// b''))
       = Inr ''// z\<newline>// b''"
proof -
  let ?m = "''first\<newline>```\<newline>code\<newline>```\<newline>last''"
  let ?md = "markdown_parse ?m None"
  let ?py = "append_comments
            [mk_Comment ''a'' SINGLE_LINE 1 1 0 3 ''# a'', mk_Comment ''b'' SINGLE_LINE 2 2 0 3 ''# b'']
            (new_result None ''# a\<newline># b'')"
  let ?c = "append_comments
            [mk_Comment ''a'' SINGLE_LINE 1 1 0 4 ''// a'', mk_Comment ''b'' SINGLE_LINE 2 2 0 4 ''// b'']
            (new_result None ''// a\<newline>// b'')"
  have one: "(1::nat) \<le> 1" and two: "(1::nat) \<le> 2" and three: "(1::nat) \<le> 3" by simp_all
  have lmd1: "1 \<le> length (text_blocks ?md)" and lmd3: "3 \<le> length (text_blocks ?md)"
    by code_simp+
  have lpy: "1 \<le> length (comments ?py)" by code_simp
  have lc: "2 \<le> length (comments ?c)" by code_simp
  have "markdown_inject_translations ?m [(- int 1, ''z'')] ?md =
        (if is_code (rev (text_blocks ?md) ! (1 - 1)) then Inr ?m
         else Inr (join_nl (md_rewrite (rev (text_blocks ?md) ! (1 - 1)) ''z'' (split_nl ?m))))"
    using negative_key_counts_from_end [OF one, of ?md ?m "''z''"] lmd1 by blast
  also have "\<dots> = Inr ''first\<newline>```\<newline>code\<newline>```\<newline>z''" by code_simp
  finally have a: "markdown_inject_translations ?m [(- 1, ''z'')] ?md
      = Inr ''first\<newline>```\<newline>code\<newline>```\<newline>z''" by simp
  have "markdown_inject_translations ?m [(- int 3, ''z'')] ?md =
        (if is_code (rev (text_blocks ?md) ! (3 - 1)) then Inr ?m
         else Inr (join_nl (md_rewrite (rev (text_blocks ?md) ! (3 - 1)) ''z'' (split_nl ?m))))"
    using negative_key_counts_from_end [OF three, of ?md ?m "''z''"] lmd3 by blast
  also have "\<dots> = Inr ''z\<newline>```\<newline>code\<newline>```\<newline>last''" by code_simp
  finally have b: "markdown_inject_translations ?m [(- 3, ''z'')] ?md
      = Inr ''z\<newline>```\<newline>code\<newline>```\<newline>last''" by simp
  have "python_inject_translations ''# a\<newline># b'' [(- int 1, ''z'')] ?py =
        (case py_rewrite (rev (comments ?py) ! (1 - 1)) ''z'' (split_nl ''# a\<newline># b'') of
           Inl e \<Rightarrow> Inl e
         | Inr lines \<Rightarrow> Inr (join_nl lines))"
    using negative_key_counts_from_end [OF one, of ?py "''# a\<newline># b''" "''z''"] lpy by blast
  also have "\<dots> = Inr ''# a\<newline># z''" by code_simp
  finally have c: "python_inject_translations ''# a\<newline># b'' [(- 1, ''z'')] ?py = Inr ''# a\<newline># z''"
    by simp
  have "c_cpp_inject_translations ''// a\<newline>// b'' [(- int 2, ''z'')] ?c =
        (case c_rewrite (rev (comments ?c) ! (2 - 1)) ''z'' (split_nl ''// a\<newline>// b'') of
           Inl e \<Rightarrow> Inl e
         | Inr lines \<Rightarrow> Inr (join_nl lines))"
    using negative_key_counts_from_end [OF two, of ?c "''// a\<newline>// b''" "''z''"] lc by blast
  also have "\<dots> = Inr ''// z\<newline>// b''" by code_simp
  finally have d: "c_cpp_inject_translations ''// a\<newline>// b'' [(- 2, ''z'')] ?c = Inr ''// z\<newline>// b''"
    by simp
  from a b c d show ?thesis by blast
qed

section \<open>Doc comments of C and C++\<close>

lemma slice_assign_range:
  assumes "1 \<le> s" "s \<le> e" "e \<le> length xs"
  shows "slice_assign xs (int s - 1) (int e) new = take (s - 1) xs @ new @ drop e xs"
proof -
  have lo: "slice_bound (int s - 1) (length xs) = s - 1"
    using assms by (auto simp: slice_bound_def)
  have hi: "slice_bound (int e) (length xs) = e"
    using assms by (auto simp: slice_bound_def)
  show ?thesis
    using assms by (simp add: slice_assign_def lo hi Let_def max_def)
qed

lemma py_get_line:
  assumes "1 \<le> s" "s \<le> length xs"
  shows "py_get xs (int s - 1) = Inr (xs ! (s - 1))"
  using assms by (auto simp: py_get_def Let_def nat_diff_distrib')

lemma py_get_index:
  assumes "i < length xs"
  shows "py_get xs (int i) = Inr (xs ! i)"
  using assms by (simp add: py_get_def)

lemma c_doc_step:
  assumes idx: "i < length (comments pr)"
    and c: "comments pr ! i = c" "type c = DOC_COMMENT"
    and pos: "Comment.line_start c = int s" "Comment.line_end c = int e"
      "1 \<le> s" "s \<le> e" "e \<le> length lines"
  shows "c_inject_step pr [(int i, tr)] lines (int i) =
     (let indent = leading_indent (lines ! (s - 1)); trans_lines = split_nl tr in
      if prefix ''///'' (Comment.original c) then
        Inr (take (s - 1) lines @ map (\<lambda>line. indent @ ''/// '' @ line) trans_lines @ drop e lines)
      else if length trans_lines = 1 then
        py_set lines (int s - 1) (indent @ ''/** '' @ tr @ '' */'')
      else
        Inr (take (s - 1) lines @ ([indent @ ''/**'']
               @ map (\<lambda>trans_line. indent @ '' * '' @ trans_line) trans_lines
               @ [indent @ '' */'']) @ drop e lines))"
proof -
  have g: "py_get (comments pr) (int i) = Inr c"
    using idx c by (simp add: py_get_index)
  have l: "py_get lines (int s - 1) = Inr (lines ! (s - 1))"
    using pos by (intro py_get_line) auto
  have sl: "\<And>new. slice_assign lines (int s - 1) (int e) new =
      take (s - 1) lines @ new @ drop e lines"
    using pos by (intro slice_assign_range) auto
  show ?thesis
    using idx c pos by (simp add: c_inject_step_def c_rewrite_def g l sl Let_def)
qed


lemma doc_block_not_line: "prefix ''/**'' x \<Longrightarrow> \<not> prefix ''///'' x"
  by (auto simp: prefix_def)

text \<open>
  Claim C8. In the C/C++ injector, for a doc comment on the lines \<open>s .. e\<close> of the
  content: if its original starts with \<open>///\<close>, every line of the translated text is
  emitted as indent, \<open>///\<close>, a blank and the line; if its original starts with \<open>/**\<close> and
  the translated text has two lines or more, an opening line indent \<open>/**\<close> is emitted,
  then indent, \<open> * \<close> and the line for every translated line, then a closing line indent
  \<open> */\<close>. The indent is the leading run of blanks and tabs of the first original line,
  and the emitted lines replace the lines \<open>s .. e\<close>.
\<close>

theorem doc_comment_style_preserved:
  assumes "i < length (comments pr)"
    and "type (comments pr ! i) = DOC_COMMENT"
    and "Comment.line_start (comments pr ! i) = int s"
    and "Comment.line_end (comments pr ! i) = int e"
    and "1 \<le> s" and "s \<le> e" and "e \<le> length (split_nl content)"
  shows "(prefix ''///'' (Comment.original (comments pr ! i)) \<longrightarrow>
            c_cpp_inject_translations content [(int i, tr)] pr =
            Inr (rewritten (split_nl content) s e
                   (map (\<lambda>line. leading_indent (split_nl content ! (s - 1)) @ ''/// '' @ line)
                      (split_nl tr))))
         \<and> (prefix ''/**'' (Comment.original (comments pr ! i)) \<and> 2 \<le> length (split_nl tr) \<longrightarrow>
            c_cpp_inject_translations content [(int i, tr)] pr =
            Inr (rewritten (split_nl content) s e
                   ([leading_indent (split_nl content ! (s - 1)) @ ''/**'']
                    @ map (\<lambda>line. leading_indent (split_nl content ! (s - 1)) @ '' * '' @ line)
                        (split_nl tr)
                    @ [leading_indent (split_nl content ! (s - 1)) @ '' */''])))"
proof -
  have step: "c_inject_step pr [(int i, tr)] (split_nl content) (int i) =
     (let indent = leading_indent (split_nl content ! (s - 1)); trans_lines = split_nl tr in
      if prefix ''///'' (Comment.original (comments pr ! i)) then
        Inr (take (s - 1) (split_nl content)
             @ map (\<lambda>line. indent @ ''/// '' @ line) trans_lines @ drop e (split_nl content))
      else if length trans_lines = 1 then
        py_set (split_nl content) (int s - 1) (indent @ ''/** '' @ tr @ '' */'')
      else
        Inr (take (s - 1) (split_nl content) @ ([indent @ ''/**'']
               @ map (\<lambda>trans_line. indent @ '' * '' @ trans_line) trans_lines
               @ [indent @ '' */'']) @ drop e (split_nl content)))"
    using assms by (intro c_doc_step) auto
  show ?thesis
    by (auto simp: c_cpp_inject_translations_def keys_desc_single step rewritten_def Let_def
          dest: doc_block_not_line)
qed

theorem doc_comment_style_preserved_witness:
  "c_cpp_inject_translations ''  /// a\<newline>int x;'' [(0, ''u\<newline>v'')]
     (c_cpp_parse example_line_doc ''  /// a\<newline>int x;'' None)
     = Inr ''  /// u\<newline>  /// v\<newline>int x;''
   \<and> c_cpp_inject_translations ''  /** a */\<newline>int x;'' [(0, ''u\<newline>v\<newline>w'')]
     (c_cpp_parse example_block_doc ''  /** a */\<newline>int x;'' None)
     = Inr ''  /**\<newline>   * u\<newline>   * v\<newline>   * w\<newline>   */\<newline>int x;''"
proof -
  let ?c1 = "''  /// a\<newline>int x;''"
  let ?p1 = "c_cpp_parse example_line_doc ?c1 None"
  let ?t1 = "''u\<newline>v''"
  have a1: "0 < length (comments ?p1)" by code_simp
  have a2: "type (comments ?p1 ! 0) = DOC_COMMENT" by code_simp
  have a3: "Comment.line_start (comments ?p1 ! 0) = int 1" by code_simp
  have a4: "Comment.line_end (comments ?p1 ! 0) = int 1" by code_simp
  have a5: "(1::nat) \<le> 1" by simp
  have a6: "(1::nat) \<le> length (split_nl ?c1)" by code_simp
  have a7: "prefix ''///'' (Comment.original (comments ?p1 ! 0))" by code_simp
  have "c_cpp_inject_translations ?c1 [(int 0, ?t1)] ?p1 =
        Inr (rewritten (split_nl ?c1) 1 1
               (map (\<lambda>line. leading_indent (split_nl ?c1 ! (1 - 1)) @ ''/// '' @ line)
                  (split_nl ?t1)))"
    using doc_comment_style_preserved [OF a1 a2 a3 a4 a5 a5 a6, of ?t1] a7 by blast
  moreover have "rewritten (split_nl ?c1) 1 1
               (map (\<lambda>line. leading_indent (split_nl ?c1 ! (1 - 1)) @ ''/// '' @ line)
                  (split_nl ?t1)) = ''  /// u\<newline>  /// v\<newline>int x;''"
    by code_simp
  ultimately have first:
    "c_cpp_inject_translations ?c1 [(0, ?t1)] ?p1 = Inr ''  /// u\<newline>  /// v\<newline>int x;''"
    by simp
  let ?c2 = "''  /** a */\<newline>int x;''"
  let ?p2 = "c_cpp_parse example_block_doc ?c2 None"
  let ?t2 = "''u\<newline>v\<newline>w''"
  have b1: "0 < length (comments ?p2)" by code_simp
  have b2: "type (comments ?p2 ! 0) = DOC_COMMENT" by code_simp
  have b3: "Comment.line_start (comments ?p2 ! 0) = int 1" by code_simp
  have b4: "Comment.line_end (comments ?p2 ! 0) = int 1" by code_simp
  have b6: "(1::nat) \<le> length (split_nl ?c2)" by code_simp
  have b7: "prefix ''/**'' (Comment.original (comments ?p2 ! 0))" by code_simp
  have b8: "2 \<le> length (split_nl ?t2)" by code_simp
  have "c_cpp_inject_translations ?c2 [(int 0, ?t2)] ?p2 =
        Inr (rewritten (split_nl ?c2) 1 1
               ([leading_indent (split_nl ?c2 ! (1 - 1)) @ ''/**'']
                @ map (\<lambda>line. leading_indent (split_nl ?c2 ! (1 - 1)) @ '' * '' @ line)
                    (split_nl ?t2)
                @ [leading_indent (split_nl ?c2 ! (1 - 1)) @ '' */'']))"
    using doc_comment_style_preserved [OF b1 b2 b3 b4 a5 a5 b6, of ?t2] b7 b8 by blast
  moreover have "rewritten (split_nl ?c2) 1 1
               ([leading_indent (split_nl ?c2 ! (1 - 1)) @ ''/**'']
                @ map (\<lambda>line. leading_indent (split_nl ?c2 ! (1 - 1)) @ '' * '' @ line)
                    (split_nl ?t2)
                @ [leading_indent (split_nl ?c2 ! (1 - 1)) @ '' */''])
        = ''  /**\<newline>   * u\<newline>   * v\<newline>   * w\<newline>   */\<newline>int x;''"
    by code_simp
  ultimately have second:
    "c_cpp_inject_translations ?c2 [(0, ?t2)] ?p2
     = Inr ''  /**\<newline>   * u\<newline>   * v\<newline>   * w\<newline>   */\<newline>int x;''"
    by simp
  from first second show ?thesis by simp
qed

section \<open>Failing closed\<close>

text \<open>
  What holds of the claim: a \<open>SyntaxError\<close> of the Python parser, on either path, and an
  exception from building the \<open>tree_sitter\<close> tree give the empty result.
\<close>

lemma python_parse_syntax_error:
  "astc_parse content = Inl SyntaxError \<Longrightarrow>
   python_parse True astc_parse ast_parse content path = Inr (new_result path content)"
  by (simp add: python_parse_def)

lemma python_parse_standard_syntax_error:
  "ast_parse content = Inl SyntaxError \<Longrightarrow>
   python_parse False astc_parse ast_parse content path = Inr (new_result path content)"
  by (simp add: python_parse_def parse_standard_def)

lemma c_cpp_parse_exception:
  "ts_parse content = Inl e \<Longrightarrow> c_cpp_parse ts_parse content path = new_result path content"
  by (simp add: c_cpp_parse_def new_result_def)

lemma new_result_empty:
  "comments (new_result path content) = [] \<and> text_blocks (new_result path content) = []"
  by (simp add: new_result_def)

text \<open>Any other exception of the Python parser is not caught and reaches the caller.\<close>

lemma python_parse_other_exception:
  "astc_parse content = Inl e \<Longrightarrow> e \<noteq> SyntaxError \<Longrightarrow>
   python_parse True astc_parse ast_parse content path = Inl e"
  by (simp add: python_parse_def)

text \<open>
  Where the tree is built, every comment node of it gives a comment of the result, as
  long as its text decodes: error nodes in the tree change nothing.
\<close>

lemma append_comments_Nil: "append_comments [] res = res"
  by (simp add: append_comments_def)

lemma append_comments_twice:
  "append_comments ys (append_comments xs res) = append_comments (xs @ ys) res"
  by (simp add: append_comments_def)

lemma extract_all_decoded:
  "list_all (\<lambda>m. \<not> isl (node_text m)) (comment_nodes n) \<Longrightarrow>
   extract_comments n res =
     (None, append_comments
              (map (\<lambda>m. comment_of_node m (projr (node_text m))) (comment_nodes n)) res)"
  "list_all (\<lambda>m. \<not> isl (node_text m)) (concat (map comment_nodes ch)) \<Longrightarrow>
   extract_children ch res =
     (None, append_comments
              (map (\<lambda>m. comment_of_node m (projr (node_text m)))
                 (concat (map comment_nodes ch))) res)"
proof (induction n res and ch res rule: extract_comments_extract_children.induct)
  case (1 ty tx sp ep ch res)
  show ?case
  proof (cases "ty = ''comment''")
    case True
    with "1.prems" obtain comment_text where tx: "tx = Inr comment_text"
      by (cases tx) auto
    have "list_all (\<lambda>m. \<not> isl (node_text m)) (concat (map comment_nodes ch))"
      using "1.prems" True by simp
    with "1.IH"(1) [OF True tx] True tx show ?thesis
      by (simp add: append_comments_twice)
  next
    case False
    with "1.prems" "1.IH"(2) show ?thesis by simp
  qed
next
  case (2 res)
  show ?case by (simp add: append_comments_Nil)
next
  case (3 child rest res)
  have c: "list_all (\<lambda>m. \<not> isl (node_text m)) (comment_nodes child)"
    and r: "list_all (\<lambda>m. \<not> isl (node_text m)) (concat (map comment_nodes rest))"
    using "3.prems" by simp_all
  note first = "3.IH"(1) [OF c]
  from "3.IH"(2) [OF first [symmetric] _ r] first show ?case
    by (simp add: append_comments_twice)
qed

lemma c_cpp_parse_keeps_comments:
  assumes "ts_parse content = Inr root"
    and "list_all (\<lambda>m. \<not> isl (node_text m)) (comment_nodes root)"
  shows "comments (c_cpp_parse ts_parse content path) =
     sort_key Comment.line_start
       (map (\<lambda>m. comment_of_node m (projr (node_text m))) (comment_nodes root))"
  using assms
  by (simp add: c_cpp_parse_def Let_def extract_all_decoded(1) new_result_def append_comments_def)

text \<open>
  Claim C4 says that a content which the grammar-based parser cannot parse gives a result
  with no comments. For the file of two lines \<open>// hi\<close> and \<open>int f( {\<close> the C/C++ parser
  returns the comment of the first line: \<open>parse\<close> walks whatever tree it is given and never
  looks for error nodes.
\<close>

theorem malformed_c_keeps_comment:
  "comments (c_cpp_parse example_malformed_c ''// hi\<newline>int f( {'' None) =
     [mk_Comment ''hi'' SINGLE_LINE 1 1 0 5 ''// hi'']"
  by code_simp

text \<open>
  Where decoding raises inside the walk, the exception is swallowed and the comments
  found before it stay in the result: a partial list.
\<close>

lemma undecodable_comment_partial_list:
  "comments (c_cpp_parse example_undecodable ''// a\<newline>// b\<newline>// c'' None) =
     [mk_Comment ''a'' SINGLE_LINE 1 1 0 4 ''// a'']"
  by code_simp

section \<open>The field \<open>original\<close>\<close>

lemma mk_Comment_original: "Comment.original (mk_Comment t ty ls le cs ce orig) = (if orig = [] then t else orig)"
  by (simp add: mk_Comment_def)














section \<open>The quote style of docstrings\<close>

lemma find_from_sublist: "find_from sub s n \<noteq> - 1 \<longleftrightarrow> sublist sub s"
  by (induction s arbitrary: n) (auto simp: sublist_Cons_right)

lemma contains_sublist: "contains s sub \<longleftrightarrow> sublist sub s"
  by (simp add: contains_def py_find_def find_from_sublist)

lemma prefix_dquote3_squote3: "prefix dquote3 (xs @ squote3) \<longleftrightarrow> prefix dquote3 xs"
proof (cases xs)
  case Nil
  then show ?thesis by (simp add: dquote3_def squote3_def)
next
  case (Cons a as)
  note A = Cons
  show ?thesis
  proof (cases as)
    case Nil
    with A show ?thesis by (simp add: dquote3_def squote3_def)
  next
    case (Cons b bs)
    with A show ?thesis by (cases bs) (simp_all add: dquote3_def squote3_def)
  qed
qed

lemma sublist_dquote3_append_squote3: "sublist dquote3 (xs @ squote3) \<longleftrightarrow> sublist dquote3 xs"
proof (induction xs)
  case Nil
  show ?case by (simp add: dquote3_def squote3_def sublist_Cons_right)
next
  case (Cons a xs)
  have "prefix dquote3 ((a # xs) @ squote3) \<longleftrightarrow> prefix dquote3 (a # xs)"
    by (rule prefix_dquote3_squote3)
  with Cons show ?case by (simp add: sublist_Cons_right)
qed

lemma contains_squoted: "contains (squote3 @ doc @ squote3) dquote3 \<longleftrightarrow> contains doc dquote3"
proof -
  have "sublist dquote3 (squote3 @ (doc @ squote3)) \<longleftrightarrow> sublist dquote3 (doc @ squote3)"
    by (simp add: squote3_def dquote3_def sublist_Cons_right)
  then show ?thesis
    by (simp add: contains_sublist sublist_dquote3_append_squote3)
qed

lemma contains_dquoted: "contains (dquote3 @ doc @ dquote3) dquote3"
  by (simp add: contains_sublist)

lemma py_set_line:
  assumes "1 \<le> s" "s \<le> length xs"
  shows "py_set xs (int s - 1) v = Inr (take (s - 1) xs @ [v] @ drop s xs)"
proof -
  have "xs[s - 1 := v] = take (s - 1) xs @ v # drop (Suc (s - 1)) xs"
    using assms by (intro upd_conv_take_nth_drop) auto
  then show ?thesis
    using assms by (auto simp: py_set_def Let_def nat_diff_distrib')
qed

lemma injection_quote:
  "(if contains (detect_quote_style content doc @ doc @ detect_quote_style content doc) dquote3
    then dquote3 else squote3) =
   (if 0 < py_find content doc
       \<and> \<not> contains (py_slice content (max 0 (py_find content doc - 10)) (py_find content doc))
            dquote3
       \<and> \<not> contains doc dquote3
    then squote3 else dquote3)"
  by (auto simp: detect_quote_style_def Let_def contains_squoted contains_dquoted)

lemma py_docstring_step:
  assumes idx: "i < length (comments pr)"
    and c: "comments pr ! i = c" "type c = DOCSTRING"
    and pos: "Comment.line_start c = int s" "Comment.line_end c = int e"
      "1 \<le> s" "s \<le> e" "e \<le> length lines"
  shows "py_inject_step pr [(int i, tr)] lines (int i) =
     Inr (take (s - 1) lines
          @ docstring_lines (leading_indent (lines ! (s - 1)))
              (if contains (Comment.original c) dquote3 then dquote3 else squote3) tr (s = e)
          @ drop e lines)"
proof -
  have g: "py_get (comments pr) (int i) = Inr c"
    using idx c by (simp add: py_get_index)
  have l: "py_get lines (int s - 1) = Inr (lines ! (s - 1))"
    using pos by (intro py_get_line) auto
  have sl: "\<And>new. slice_assign lines (int s - 1) (int e) new =
      take (s - 1) lines @ new @ drop e lines"
    using pos by (intro slice_assign_range) auto
  have st: "\<And>v. py_set lines (int s - 1) v = Inr (take (s - 1) lines @ [v] @ drop s lines)"
    using pos by (intro py_set_line) auto
  show ?thesis
  proof (cases "s = e")
    case True
    have le: "Comment.line_end c = int s"
      using pos True by simp
    have "py_inject_step pr [(int i, tr)] lines (int i) =
        py_set lines (int s - 1)
          (leading_indent (lines ! (s - 1))
           @ (if contains (Comment.original c) dquote3 then dquote3 else squote3) @ tr
           @ (if contains (Comment.original c) dquote3 then dquote3 else squote3))"
      using idx c pos(1) le by (simp add: py_inject_step_def py_rewrite_def g l Let_def)
    also have "\<dots> = Inr (take (s - 1) lines
          @ docstring_lines (leading_indent (lines ! (s - 1)))
              (if contains (Comment.original c) dquote3 then dquote3 else squote3) tr True
          @ drop s lines)"
      by (simp add: st docstring_lines_def)
    finally show ?thesis
      using True by simp
  next
    case False
    then have "int s \<noteq> int e" by simp
    then show ?thesis
      using idx c pos False by (simp add: py_inject_step_def py_rewrite_def g l sl Let_def docstring_lines_def)
  qed
qed

text \<open>
  Claim C2 says that the quote style of a docstring is found from the characters before
  the start of the docstring and that, as a consequence, a function documented with three
  single quotes is emitted again with three single quotes. The code does not look at the
  start of the docstring: \<open>content.find(docstring)\<close> gives the first place where the
  text of the docstring occurs in the content. In the file below the text \<open>doc\<close> first
  occurs in the assignment, behind three double quotes, and the docstring of \<open>f\<close>,
  written with three single quotes, is emitted with three double quotes.
\<close>

theorem single_quoted_docstring_reemitted_double:
  "(case python_parse True (\<lambda>c. Inr example_shadowed_tree) (\<lambda>c. Inr example_shadowed_tree)
          example_shadowed_py None of
      Inl e \<Rightarrow> Inl e
    | Inr res \<Rightarrow> python_inject_translations example_shadowed_py [(0, ''hola'')] res)
   = Inr (''x = '' @ dquote3 @ ''doc'' @ dquote3 @ ''\<newline>def f():\<newline>    ''
          @ dquote3 @ ''hola'' @ dquote3 @ ''\<newline>'')"
  by code_simp

text \<open>
  The same happens for a docstring of several indented lines: its text without the
  indentation does not occur in the content, the search gives \<open>-1\<close>, and the style falls
  back to three double quotes.
\<close>

lemma multiline_docstring_example:
  "(case python_parse True (\<lambda>c. Inr example_multiline_tree) (\<lambda>c. Inr example_multiline_tree)
          example_multiline_py None of
      Inl e \<Rightarrow> Inl e
    | Inr res \<Rightarrow> python_inject_translations example_multiline_py [(0, ''Hola\<newline>mundo'')] res)
   = Inr (''def f():\<newline>    '' @ dquote3 @ ''\<newline>        Hola\<newline>        mundo\<newline>    ''
          @ dquote3 @ ''\<newline>'')"
  by code_simp

text \<open>
  On the path without \<open>ast_comments\<close> nothing is detected at all: the comment is built
  without \<open>original\<close>, which then is the text of the docstring, and the injector takes
  three single quotes unless that text contains three double quotes. A docstring written
  with three double quotes is emitted with three single quotes.
\<close>

lemma standard_path_original:
  "c \<in> set (walk_docstrings_standard tree) \<Longrightarrow> Comment.original c = Comment.text c"
  by (induction tree rule: walk_docstrings_standard.induct)
     (auto simp: mk_Comment_def split: if_splits)

lemma double_quoted_docstring_standard_path:
  "(case python_parse False (\<lambda>c. Inl SyntaxError) (\<lambda>c. Inr example_double_tree)
          example_double_py None of
      Inl e \<Rightarrow> Inl e
    | Inr res \<Rightarrow> python_inject_translations example_double_py [(0, ''hola'')] res)
   = Inr (''def f():\<newline>    '' @ squote3 @ ''hola'' @ squote3)"
  by code_simp

text \<open>
  The extent of the defect on the path with \<open>ast_comments\<close>. For a docstring comment on
  the lines \<open>s .. e\<close> of the content, whose \<open>original\<close> is the one this path builds from
  the docstring \<open>doc\<close>, the injector emits three single quotes exactly when the first
  occurrence of \<open>doc\<close> in the content is at a positive offset, the up to ten characters
  before that offset do not contain three double quotes, and \<open>doc\<close> itself does not
  contain three double quotes; in every other case it emits three double quotes.
\<close>

lemma docstring_quote_detected:
  assumes "i < length (comments pr)"
    and "type (comments pr ! i) = DOCSTRING"
    and "Comment.original (comments pr ! i) =
           detect_quote_style content doc @ doc @ detect_quote_style content doc"
    and "Comment.line_start (comments pr ! i) = int s"
    and "Comment.line_end (comments pr ! i) = int e"
    and "1 \<le> s" and "s \<le> e" and "e \<le> length (split_nl content)"
  shows "python_inject_translations content [(int i, tr)] pr =
     Inr (rewritten (split_nl content) s e
           (docstring_lines (leading_indent (split_nl content ! (s - 1)))
              (if 0 < py_find content doc
                  \<and> \<not> contains (py_slice content (max 0 (py_find content doc - 10))
                                  (py_find content doc)) dquote3
                  \<and> \<not> contains doc dquote3
               then squote3 else dquote3)
              tr (s = e)))"
proof -
  have "py_inject_step pr [(int i, tr)] (split_nl content) (int i) =
     Inr (take (s - 1) (split_nl content)
          @ docstring_lines (leading_indent (split_nl content ! (s - 1)))
              (if contains (Comment.original (comments pr ! i)) dquote3 then dquote3 else squote3)
              tr (s = e)
          @ drop e (split_nl content))"
    using assms by (intro py_docstring_step) auto
  then show ?thesis
    using assms(3)
    by (simp add: python_inject_translations_def keys_desc_single rewritten_def injection_quote)
qed

text \<open>
  A docstring of one line, written with three single quotes, whose text does not occur
  earlier in the file keeps its quotes.
\<close>

lemma single_quoted_docstring_kept:
  "(case python_parse True (\<lambda>c. Inr example_py_tree) (\<lambda>c. Inl SyntaxError) example_py None of
      Inl e \<Rightarrow> Inl e
    | Inr res \<Rightarrow> python_inject_translations example_py [(0, ''hola'')] res)
   = Inr (''def f():\<newline>    '' @ squote3 @ ''hola'' @ squote3 @ ''\<newline># a'')"
proof -
  let ?R = "append_comments (walk_docstrings example_py example_py_tree)
              (append_comments (walk_comments example_py_tree) (new_result None example_py))"
  let ?pr = "?R\<lparr>comments := sort_key Comment.line_start (comments ?R)\<rparr>"
  have pp: "python_parse True (\<lambda>c. Inr example_py_tree) (\<lambda>c. Inl SyntaxError) example_py None
            = Inr ?pr"
    by (simp add: python_parse_def Let_def)
  have h1: "0 < length (comments ?pr)" by code_simp
  have h2: "type (comments ?pr ! 0) = DOCSTRING" by code_simp
  have h3: "Comment.original (comments ?pr ! 0) =
      detect_quote_style example_py ''doc'' @ ''doc'' @ detect_quote_style example_py ''doc''"
    by code_simp
  have h4: "Comment.line_start (comments ?pr ! 0) = int 2" by code_simp
  have h5: "Comment.line_end (comments ?pr ! 0) = int 2" by code_simp
  have h6: "(1::nat) \<le> 2" by simp
  have h7: "(2::nat) \<le> 2" by simp
  have h8: "2 \<le> length (split_nl example_py)" by code_simp
  have "python_inject_translations example_py [(int 0, ''hola'')] ?pr =
     Inr (rewritten (split_nl example_py) 2 2
           (docstring_lines (leading_indent (split_nl example_py ! (2 - 1)))
              (if 0 < py_find example_py ''doc''
                  \<and> \<not> contains (py_slice example_py (max 0 (py_find example_py ''doc'' - 10))
                                  (py_find example_py ''doc'')) dquote3
                  \<and> \<not> contains ''doc'' dquote3
               then squote3 else dquote3)
              ''hola'' (2 = (2::nat))))"
    by (rule docstring_quote_detected [OF h1 h2 h3 h4 h5 h6 h7 h8])
  moreover have "rewritten (split_nl example_py) 2 2
           (docstring_lines (leading_indent (split_nl example_py ! (2 - 1)))
              (if 0 < py_find example_py ''doc''
                  \<and> \<not> contains (py_slice example_py (max 0 (py_find example_py ''doc'' - 10))
                                  (py_find example_py ''doc'')) dquote3
                  \<and> \<not> contains ''doc'' dquote3
               then squote3 else dquote3)
              ''hola'' (2 = (2::nat)))
        = ''def f():\<newline>    '' @ squote3 @ ''hola'' @ squote3 @ ''\<newline># a''"
    by code_simp
  ultimately show ?thesis
    using pp by simp
qed

section \<open>Text blocks in order, and a fence left open\<close>

lemma ordered_blocks_snoc:
  "ordered_blocks bs \<Longrightarrow> ends_below (TextBlock.line_start b) bs \<Longrightarrow>
   1 \<le> TextBlock.line_start b \<Longrightarrow> TextBlock.line_start b \<le> TextBlock.line_end b \<Longrightarrow>
   ordered_blocks (bs @ [b])"
  by (auto simp: ordered_blocks_def ends_below_def sorted_wrt_append list_all_iff)

lemma ends_below_mono: "ends_below m bs \<Longrightarrow> m \<le> m' \<Longrightarrow> ends_below m' bs"
  by (auto simp: ends_below_def list_all_iff)

lemma ends_below_snoc: "ends_below m (bs @ [b]) \<longleftrightarrow> ends_below m bs \<and> TextBlock.line_end b < m"
  by (auto simp: ends_below_def)

lemma mk_TextBlock_sel [simp]:
  "TextBlock.line_start (mk_TextBlock t ls le c lang orig) = ls"
  "TextBlock.line_end (mk_TextBlock t ls le c lang orig) = le"
  "is_code (mk_TextBlock t ls le c lang orig) = c"
  "code_language (mk_TextBlock t ls le c lang orig) = lang"
  "TextBlock.text (mk_TextBlock t ls le c lang orig) = t"
  by (simp_all add: mk_TextBlock_def)

lemma append_block_sel [simp]:
  "text_blocks (append_block b r) = text_blocks r @ [b]"
  "comments (append_block b r) = comments r"
  by (simp_all add: append_block_def)

lemma append_comments_sel [simp]:
  "text_blocks (append_comments cs r) = text_blocks r"
  "comments (append_comments cs r) = comments r @ cs"
  by (simp_all add: append_comments_def)

lemma md_line_order:
  assumes "order_inv n st"
  shows "order_inv (n + 1) (md_line st (n + 1) line)"
proof (cases "code_match line")
  case None
  with assms show ?thesis
    by (auto simp: md_line_def order_inv_def floor_line_def intro: ends_below_mono)
next
  case (Some lang)
  with assms show ?thesis
    by (auto simp: md_line_def order_inv_def floor_line_def ends_below_snoc
          intro: ends_below_mono ordered_blocks_snoc)
qed


lemma md_scan_append:
  "md_scan st i (xs @ ys) = md_scan (md_scan st i xs) (i + int (length xs)) ys"
  by (induction xs arbitrary: st i) (auto simp: algebra_simps)

lemma md_scan_order:
  assumes "order_inv n st"
  shows "order_inv (n + int (length ls)) (md_scan st (n + 1) ls)"
  using assms
proof (induction ls arbitrary: st n)
  case Nil
  then show ?case by simp
next
  case (Cons l ls)
  have "order_inv (n + 1) (md_line st (n + 1) l)"
    using Cons.prems by (rule md_line_order)
  then have "order_inv (n + 1 + int (length ls)) (md_scan (md_line st (n + 1) l) (n + 1 + 1) ls)"
    by (rule Cons.IH)
  then show ?case by (simp add: algebra_simps)
qed

lemma md_init_order: "order_inv 0 (md_init path content)"
  by (simp add: order_inv_def md_init_def new_result_def floor_line_def ordered_blocks_def
        ends_below_def)

lemma md_line_in_code:
  "in_code_block (md_line st i line) = (in_code_block st \<noteq> is_fence line)"
  by (auto simp: md_line_def is_fence_def split: option.splits)

lemma md_scan_in_code:
  "in_code_block (md_scan st i ls) = (in_code_block st \<noteq> odd (fences ls))"
  by (induction ls arbitrary: st i) (auto simp: md_line_in_code fences_def)

text \<open>A run of lines inside a fence: the lines are collected and nothing else changes.\<close>
lemma md_scan_code_run:
  assumes "in_code_block st" "list_all (\<lambda>l. \<not> is_fence l) ls"
  shows "md_scan st i ls = st\<lparr>current_block_lines := current_block_lines st @ ls\<rparr>"
  using assms
  by (induction ls arbitrary: st i) (auto simp: md_line_def is_fence_def)

lemma sorted_wrt_keys_desc: "sorted_wrt (\<lambda>a b. b < a) (keys_desc t)"
proof -
  have "sorted_wrt (<) (sort (remdups (map fst t)))"
    by (simp add: strict_sorted_iff)
  then show ?thesis
    by (simp add: keys_desc_def sorted_wrt_rev)
qed

lemma keys_desc_lookup: "k \<in> set (keys_desc t) \<Longrightarrow> \<exists>v. map_of t k = Some v"
  by (simp add: keys_desc_def) (metis (no_types, opaque_lifting) imageE eq_fst_iff weak_map_of_SomeI map_of_eq_None_iff not_None_eq)

lemma ordered_blocks_nth:
  assumes "ordered_blocks bs" "i < j" "j < length bs"
  shows "TextBlock.line_end (bs ! i) < TextBlock.line_start (bs ! j)"
  using assms by (auto simp: ordered_blocks_def sorted_wrt_iff_nth_less)

lemma ordered_blocks_range:
  assumes "ordered_blocks bs" "i < length bs"
  shows "1 \<le> TextBlock.line_start (bs ! i) \<and> TextBlock.line_start (bs ! i) \<le> TextBlock.line_end (bs ! i)"
  using assms by (auto simp: ordered_blocks_def list_all_length)

text \<open>What one key does to the lines, for a key that is an index.\<close>
lemma md_inject_step_index:
  assumes "i < length (text_blocks pr)" "map_of t (int i) = Some v"
  shows "md_inject_step pr t lines (int i) =
     (if is_code (text_blocks pr ! i) then Inr lines
      else Inr (slice_assign lines (TextBlock.line_start (text_blocks pr ! i) - 1)
                  (TextBlock.line_end (text_blocks pr ! i)) (split_nl v)))"
  using assms by (simp add: md_inject_step_def md_rewrite_def py_get_index)

lemma md_inject_step_beyond:
  assumes "int (length (text_blocks pr)) \<le> k"
  shows "md_inject_step pr t lines k = Inr lines"
  using assms by (simp add: md_inject_step_def)

lemma md_inject_suffix:
  assumes ob: "ordered_blocks (text_blocks pr)"
  shows "sorted_wrt (\<lambda>a b. b < a) ks \<Longrightarrow> list_all (\<lambda>k. 0 \<le> k) ks \<Longrightarrow>
     (\<forall>k \<in> set ks. \<exists>v. map_of t k = Some v) \<Longrightarrow>
     (\<forall>k \<in> set ks. k < int (length (text_blocks pr)) \<longrightarrow> \<not> is_code (text_blocks pr ! nat k) \<longrightarrow>
         TextBlock.line_end (text_blocks pr ! nat k) \<le> int E) \<Longrightarrow>
     E \<le> length lines \<Longrightarrow>
     \<exists>ls'. for_each (md_inject_step pr t) lines ks = Inr (ls' @ drop E lines)"
proof (induction ks arbitrary: lines E)
  case Nil
  have "lines = take E lines @ drop E lines" by simp
  then show ?case by (metis for_each.simps(1))
next
  case (Cons k ks)
  let ?B = "text_blocks pr"
  have k0: "0 \<le> k" using Cons.prems(2) by simp
  have sorted': "sorted_wrt (\<lambda>a b. b < a) ks" and less: "\<forall>k' \<in> set ks. k' < k"
    using Cons.prems(1) by auto
  have nn': "list_all (\<lambda>k. 0 \<le> k) ks" using Cons.prems(2) by simp
  have look': "\<forall>k \<in> set ks. \<exists>v. map_of t k = Some v" using Cons.prems(3) by simp
  obtain v where v: "map_of t k = Some v" using Cons.prems(3) by auto
  have bound': "\<forall>k \<in> set ks. k < int (length ?B) \<longrightarrow> \<not> is_code (?B ! nat k) \<longrightarrow>
         TextBlock.line_end (?B ! nat k) \<le> int E"
    using Cons.prems(4) by simp
  show ?case
  proof (cases "k < int (length ?B) \<and> \<not> is_code (?B ! nat k)")
    case False
    then have "md_inject_step pr t lines k = Inr lines"
    proof (cases "k < int (length ?B)")
      case True
      with False k0 v md_inject_step_index [of "nat k" pr t v lines] show ?thesis by simp
    next
      case False
      then show ?thesis by (simp add: md_inject_step_beyond)
    qed
    moreover have "\<exists>ls'. for_each (md_inject_step pr t) lines ks = Inr (ls' @ drop E lines)"
      using sorted' nn' look' bound' Cons.prems(5) by (rule Cons.IH)
    ultimately show ?thesis by simp
  next
    case True
    let ?b = "?B ! nat k"
    define s where "s = nat (TextBlock.line_start ?b)"
    define e where "e = nat (TextBlock.line_end ?b)"
    have kl: "nat k < length ?B" using True k0 by (auto simp: nat_less_iff)
    have rng: "1 \<le> TextBlock.line_start ?b" "TextBlock.line_start ?b \<le> TextBlock.line_end ?b"
      using ordered_blocks_range [OF ob kl] by auto
    have eE: "TextBlock.line_end ?b \<le> int E"
      using Cons.prems(4) True by simp
    have se: "1 \<le> s" "s \<le> e" "e \<le> E" "int s = TextBlock.line_start ?b"
      "int e = TextBlock.line_end ?b"
      using rng eE by (auto simp: s_def e_def)
    have el: "e \<le> length lines" using se Cons.prems(5) by simp
    let ?new = "split_nl v"
    let ?lines1 = "take (s - 1) lines @ ?new @ drop e lines"
    have step: "md_inject_step pr t lines k = Inr ?lines1"
      using md_inject_step_index [OF kl, of t v lines] v k0 True
        slice_assign_range [OF se(1) se(2) el, of ?new]
      by (simp add: se(4) [symmetric] se(5) [symmetric])
    have bound1: "\<forall>k' \<in> set ks. k' < int (length ?B) \<longrightarrow> \<not> is_code (?B ! nat k') \<longrightarrow>
         TextBlock.line_end (?B ! nat k') \<le> int (s - 1)"
    proof (intro ballI impI)
      fix k' assume k': "k' \<in> set ks" "k' < int (length ?B)"
      have "0 \<le> k'" using nn' k' by (simp add: list_all_iff)
      moreover have "k' < k" using less k' by simp
      ultimately have "nat k' < nat k" by simp
      then have "TextBlock.line_end (?B ! nat k') < TextBlock.line_start ?b"
        using ordered_blocks_nth [OF ob _ kl] by simp
      then show "TextBlock.line_end (?B ! nat k') \<le> int (s - 1)"
        using se by simp
    qed
    have len1: "s - 1 \<le> length ?lines1"
      using se el by simp
    obtain ls'' where rest: "for_each (md_inject_step pr t) ?lines1 ks = Inr (ls'' @ drop (s - 1) ?lines1)"
      using Cons.IH [OF sorted' nn' look' bound1 len1] by blast
    have "drop (s - 1) ?lines1 = ?new @ drop e lines"
      using se el by simp
    moreover have "drop e lines = take (E - e) (drop e lines) @ drop E lines"
      using se by (metis append_take_drop_id drop_drop le_add_diff_inverse2 add.commute)
    ultimately have "ls'' @ drop (s - 1) ?lines1 =
        (ls'' @ ?new @ take (E - e) (drop e lines)) @ drop E lines"
      by simp
    then show ?thesis
      using step rest by (metis for_each.simps(2) sum.case(2))
  qed
qed


lemma set_keys_desc: "set (keys_desc t) = fst ` set t"
  by (simp add: keys_desc_def)

lemma md_line_opener:
  assumes "\<not> in_code_block st" "code_match line = Some lang"
  shows "in_code_block (md_line st i line)" "code_lang (md_line st i line) = lang"
    "block_start (md_line st i line) = i" "current_block_lines (md_line st i line) = []"
  using assms by (auto simp: md_line_def)

lemma unclosed_fence_blocks:
  assumes lines: "split_nl content = pre @ [opener] @ trailing"
    and bal: "even (fences pre)"
    and op: "code_match opener = Some lang"
    and tr: "list_all (\<lambda>l. \<not> is_fence l) trailing" "trailing \<noteq> []"
  shows "\<exists>B. text_blocks (markdown_parse content path) =
           B @ [mk_TextBlock (join_nl trailing) (int (length pre) + 1)
                  (int (length pre + 1 + length trailing)) True lang []]
         \<and> ordered_blocks B \<and> ends_below (int (length pre) + 1) B"
proof -
  let ?n = "int (length pre)"
  let ?S1 = "md_scan (md_init path content) 1 pre"
  let ?S2 = "md_line ?S1 (?n + 1) opener"
  have out: "\<not> in_code_block ?S1"
    using bal by (simp add: md_scan_in_code md_init_def)
  have o1: "order_inv ?n ?S1"
    using md_scan_order [OF md_init_order, of pre path content] by simp
  have o2: "order_inv (?n + 1) ?S2"
    using o1 by (rule md_line_order)
  note s2 = md_line_opener [OF out op, of "?n + 1"]
  have s3: "\<And>i. md_scan ?S2 i trailing = ?S2\<lparr>current_block_lines := trailing\<rparr>"
    using md_scan_code_run [OF s2(1) tr(1)] s2(4) by simp
  have scan: "md_scan (md_init path content) 1 (split_nl content) =
      ?S2\<lparr>current_block_lines := trailing\<rparr>"
  proof -
    have "md_scan (md_init path content) 1 (pre @ [opener] @ trailing) =
          md_scan ?S1 (1 + ?n) ([opener] @ trailing)"
      by (rule md_scan_append)
    also have "1 + ?n = ?n + 1" by simp
    also have "md_scan ?S1 (?n + 1) ([opener] @ trailing) = md_scan ?S2 (?n + 1 + 1) trailing"
      by simp
    also have "\<dots> = ?S2\<lparr>current_block_lines := trailing\<rparr>"
      by (rule s3)
    finally show ?thesis by (simp only: lines)
  qed
  have parse: "text_blocks (markdown_parse content path) =
      text_blocks (result ?S2) @ [mk_TextBlock (join_nl trailing) (?n + 1)
                  (int (length pre + 1 + length trailing)) True lang []]"
    unfolding markdown_parse_def Let_def scan
    using tr(2) s2 by (simp add: lines)
  have "ordered_blocks (text_blocks (result ?S2))"
    using o2 by (simp add: order_inv_def)
  moreover have "ends_below (?n + 1) (text_blocks (result ?S2))"
    using o2 s2 by (simp add: order_inv_def floor_line_def)
  ultimately show ?thesis using parse by blast
qed

text \<open>
  Claim C10 says that the text after a fence opener that is never closed is classified as
  code and never modified by the injector. Two inputs show the limits. With the keys
  \<open>0\<close> and \<open>-2\<close> the key \<open>0\<close> is handled first and shortens the first block from three
  lines to one; the key \<open>-2\<close> then reads the same block from the end of the list and
  replaces the lines 1 to 3 of the shortened text, which now include the opener and the
  code line: the result is the single line \<open>y\<close>. And where the opener is the last line of
  the content, there are no lines to flush and \<open>parse\<close> returns no text block.
\<close>

theorem unclosed_fence_counterexample:
  "markdown_inject_translations ''a\<newline>b\<newline>c\<newline>```py\<newline>code'' [(0, ''x''), (- 2, ''y'')]
     (markdown_parse ''a\<newline>b\<newline>c\<newline>```py\<newline>code'' None) = Inr ''y''
   \<and> text_blocks (markdown_parse ''```py'' None) = []"
  by code_simp

text \<open>
  Claim C10, amended. Let the content end inside a fence that is never closed: its lines
  are some lines with an even number of fence lines, then an opener, then one line or
  more, none of them a fence line. Then the last text block of \<open>parse\<close> is a code block
  with the language tag of the opener, holds the lines after the opener, and runs from
  the line of the opener to the last line. For every translations map whose keys are not
  negative, the injector returns normally and its output ends with the opener and the
  lines after it, unchanged.
\<close>

theorem unclosed_fence_is_code:
  assumes "split_nl content = pre @ [opener] @ trailing"
    and "even (fences pre)"
    and "code_match opener = Some lang"
    and "list_all (\<lambda>l. \<not> is_fence l) trailing"
    and "trailing \<noteq> []"
  shows "text_blocks (markdown_parse content path) \<noteq> []
     \<and> last (text_blocks (markdown_parse content path)) =
         mk_TextBlock (join_nl trailing) (int (length pre) + 1)
           (int (length (split_nl content))) True lang []
     \<and> (list_all (\<lambda>k. 0 \<le> k) (map fst t) \<longrightarrow>
          (\<exists>ls'. markdown_inject_translations content t (markdown_parse content path) =
                  Inr (join_nl (ls' @ [opener] @ trailing))))"
proof -
  let ?pr = "markdown_parse content path"
  let ?final = "mk_TextBlock (join_nl trailing) (int (length pre) + 1)
                  (int (length pre + 1 + length trailing)) True lang []"
  obtain B where B: "text_blocks ?pr = B @ [?final]" "ordered_blocks B"
      "ends_below (int (length pre) + 1) B"
    using unclosed_fence_blocks [OF assms] by blast
  have len: "length (split_nl content) = length pre + 1 + length trailing"
    using assms(1) by simp
  have first: "text_blocks ?pr \<noteq> []" and second: "last (text_blocks ?pr) =
         mk_TextBlock (join_nl trailing) (int (length pre) + 1)
           (int (length (split_nl content))) True lang []"
    using B(1) len by simp_all
  have ob: "ordered_blocks (text_blocks ?pr)"
    unfolding B(1) using B(2,3) by (intro ordered_blocks_snoc) simp_all
  have third: "\<exists>ls'. markdown_inject_translations content t ?pr =
                  Inr (join_nl (ls' @ [opener] @ trailing))"
    if nn: "list_all (\<lambda>k. 0 \<le> k) (map fst t)"
  proof -
    have k1: "list_all (\<lambda>k. 0 \<le> k) (keys_desc t)"
      using nn by (auto simp: list_all_iff set_keys_desc)
    have k2: "\<forall>k \<in> set (keys_desc t). \<exists>v. map_of t k = Some v"
      using keys_desc_lookup by blast
    have k3: "\<forall>k \<in> set (keys_desc t). k < int (length (text_blocks ?pr)) \<longrightarrow>
         \<not> is_code (text_blocks ?pr ! nat k) \<longrightarrow>
         TextBlock.line_end (text_blocks ?pr ! nat k) \<le> int (length pre)"
    proof (intro ballI impI)
      fix k assume k: "k \<in> set (keys_desc t)" "k < int (length (text_blocks ?pr))"
        "\<not> is_code (text_blocks ?pr ! nat k)"
      have "0 \<le> k" using k1 k(1) by (simp add: list_all_iff)
      have "nat k \<noteq> length B"
        using k(3) B(1) by (auto simp: nth_append)
      then have "nat k < length B"
        using k(2) \<open>0 \<le> k\<close> B(1) by auto
      then have "TextBlock.line_end (B ! nat k) < int (length pre) + 1"
        using B(3) by (simp add: ends_below_def list_all_length)
      then show "TextBlock.line_end (text_blocks ?pr ! nat k) \<le> int (length pre)"
        using \<open>nat k < length B\<close> B(1) by (simp add: nth_append)
    qed
    have k4: "length pre \<le> length (split_nl content)"
      using len by simp
    obtain ls' where "for_each (md_inject_step ?pr t) (split_nl content) (keys_desc t) =
        Inr (ls' @ drop (length pre) (split_nl content))"
      using md_inject_suffix [OF ob sorted_wrt_keys_desc k1 k2 k3 k4] by blast
    then have "markdown_inject_translations content t ?pr =
        Inr (join_nl (ls' @ [opener] @ trailing))"
      by (simp add: markdown_inject_translations_def assms(1))
    then show ?thesis by blast
  qed
  from first second third show ?thesis by blast
qed

theorem unclosed_fence_is_code_witness:
  "text_blocks (markdown_parse ''a\<newline>b\<newline>c\<newline>```py\<newline>code'' None) \<noteq> []
   \<and> last (text_blocks (markdown_parse ''a\<newline>b\<newline>c\<newline>```py\<newline>code'' None)) =
       mk_TextBlock ''code'' 4 5 True ''py'' []
   \<and> (\<exists>ls'. markdown_inject_translations ''a\<newline>b\<newline>c\<newline>```py\<newline>code''
                [(0, ''x\<newline>y'')] (markdown_parse ''a\<newline>b\<newline>c\<newline>```py\<newline>code'' None) =
              Inr (join_nl (ls' @ [''```py''] @ [''code''])))"
proof -
  let ?c = "''a\<newline>b\<newline>c\<newline>```py\<newline>code''"
  have h1: "split_nl ?c = [''a'', ''b'', ''c''] @ [''```py''] @ [''code'']" by code_simp
  have h2: "even (fences [''a'', ''b'', ''c''])" by code_simp
  have h3: "code_match ''```py'' = Some ''py''" by code_simp
  have h4: "list_all (\<lambda>l. \<not> is_fence l) [''code'']" by code_simp
  have h5: "[''code''] \<noteq> []" by simp
  have h6: "list_all (\<lambda>k. 0 \<le> k) (map fst [(0::int, ''x\<newline>y'')])" by simp
  have j: "join_nl [''code''] = ''code''" by simp
  have l: "int (length [''a'', ''b'', ''c'']) + 1 = 4" "int (length (split_nl ?c)) = 5"
    by code_simp+
  show ?thesis
    using unclosed_fence_is_code [OF h1 h2 h3 h4 h5, of None "[(0, ''x\<newline>y'')]"] h6
    unfolding j l by blast
qed

section \<open>One fenced block between two paragraphs\<close>

lemma md_line_prose:
  assumes "\<not> in_code_block st" "\<not> is_fence line"
  shows "\<not> in_code_block (md_line st i line)"
    "text_blocks (result (md_line st i line)) = text_blocks (result st)"
    "current_block_lines (md_line st i line) = current_block_lines st @ [line]"
    "block_start (md_line st i line) = (if current_block_lines st = [] then i else block_start st)"
    "code_lang (md_line st i line) = code_lang st"
  using assms by (auto simp: md_line_def is_fence_def)

lemma md_scan_prose_run:
  assumes "\<not> in_code_block st" "list_all (\<lambda>l. \<not> is_fence l) ps"
  shows "\<not> in_code_block (md_scan st i ps)
    \<and> text_blocks (result (md_scan st i ps)) = text_blocks (result st)
    \<and> current_block_lines (md_scan st i ps) = current_block_lines st @ ps
    \<and> block_start (md_scan st i ps) =
        (if current_block_lines st = [] \<and> ps \<noteq> [] then i else block_start st)"
  using assms
proof (induction ps arbitrary: st i)
  case Nil
  then show ?case by simp
next
  case (Cons p ps)
  have p: "\<not> is_fence p" and ps: "list_all (\<lambda>l. \<not> is_fence l) ps"
    using Cons.prems(2) by simp_all
  note one = md_line_prose [OF Cons.prems(1) p, of i]
  from Cons.IH [OF one(1) ps, of "i + 1"] one show ?case by simp
qed

lemma md_line_opener_blocks:
  assumes "\<not> in_code_block st" "code_match line = Some lang"
  shows "text_blocks (result (md_line st (m + 1) line)) =
     (if current_block_lines st \<noteq> [] then
        text_blocks (result st)
        @ [mk_TextBlock (join_nl (current_block_lines st)) (block_start st) m False [] []]
      else text_blocks (result st))"
  using assms by (simp add: md_line_def)

lemma md_line_closer:
  assumes "in_code_block st" "is_fence line"
  shows "\<not> in_code_block (md_line st (m + 1) line)"
    "current_block_lines (md_line st (m + 1) line) = []"
    "text_blocks (result (md_line st (m + 1) line)) =
     (if current_block_lines st \<noteq> [] then
        text_blocks (result st)
        @ [mk_TextBlock (join_nl (current_block_lines st)) (block_start st) m True
             (code_lang st) []]
      else text_blocks (result st))"
  using assms by (auto simp: md_line_def is_fence_def)

lemma one_fence_blocks:
  assumes lines: "split_nl content = P1 @ [fo] @ C @ [fc] @ P2"
    and ne: "P1 \<noteq> []" "C \<noteq> []" "P2 \<noteq> []"
    and nf: "list_all (\<lambda>l. \<not> is_fence l) P1" "list_all (\<lambda>l. \<not> is_fence l) C"
      "list_all (\<lambda>l. \<not> is_fence l) P2"
    and fo: "code_match fo = Some lang" and fc: "is_fence fc"
  shows "text_blocks (markdown_parse content path) =
     [mk_TextBlock (join_nl P1) 1 (int (length P1)) False [] [],
      mk_TextBlock (join_nl C) (int (length P1) + 1) (int (length P1 + length C) + 1) True lang [],
      mk_TextBlock (join_nl P2) (int (length P1 + length C) + 3)
        (int (length (split_nl content))) False [] []]"
proof -
  define n1 where "n1 = int (length P1)"
  define n2 where "n2 = int (length P1 + length C)"
  have n12: "n1 + 2 + int (length C) = n2 + 1 + 1" by (simp add: n1_def n2_def)
  let ?S0 = "md_init path content"
  let ?S1 = "md_scan ?S0 1 P1"
  let ?S2 = "md_line ?S1 (n1 + 1) fo"
  let ?S3 = "md_scan ?S2 (n1 + 2) C"
  let ?S4 = "md_line ?S3 (n2 + 1 + 1) fc"
  let ?S5 = "md_scan ?S4 (n2 + 3) P2"
  have s0: "\<not> in_code_block ?S0" "current_block_lines ?S0 = []" "text_blocks (result ?S0) = []"
    by (simp_all add: md_init_def new_result_def)
  have s1: "\<not> in_code_block ?S1" "text_blocks (result ?S1) = []"
    "current_block_lines ?S1 = P1" "block_start ?S1 = 1"
    using md_scan_prose_run [OF s0(1) nf(1), of 1] s0 ne by simp_all
  have s2: "in_code_block ?S2" "code_lang ?S2 = lang" "block_start ?S2 = n1 + 1"
    "current_block_lines ?S2 = []"
    "text_blocks (result ?S2) = [mk_TextBlock (join_nl P1) 1 n1 False [] []]"
    using md_line_opener [OF s1(1) fo, of "n1 + 1"]
      md_line_opener_blocks [OF s1(1) fo, of n1] s1 ne by simp_all
  have s3: "?S3 = ?S2\<lparr>current_block_lines := C\<rparr>"
    using md_scan_code_run [OF s2(1) nf(2), of "n1 + 2"] s2(4) by simp
  have s3': "in_code_block ?S3" "current_block_lines ?S3 = C" "block_start ?S3 = n1 + 1"
    "code_lang ?S3 = lang"
    "text_blocks (result ?S3) = [mk_TextBlock (join_nl P1) 1 n1 False [] []]"
    using s2 by (simp_all add: s3)
  have s4: "\<not> in_code_block ?S4" "current_block_lines ?S4 = []"
    "text_blocks (result ?S4) =
       [mk_TextBlock (join_nl P1) 1 n1 False [] [],
        mk_TextBlock (join_nl C) (n1 + 1) (n2 + 1) True lang []]"
    using md_line_closer [OF s3'(1) fc, of "n2 + 1"] s3'(2-5) ne by simp_all
  have s5: "\<not> in_code_block ?S5" "current_block_lines ?S5 = P2" "block_start ?S5 = n2 + 3"
    "text_blocks (result ?S5) =
       [mk_TextBlock (join_nl P1) 1 n1 False [] [],
        mk_TextBlock (join_nl C) (n1 + 1) (n2 + 1) True lang []]"
    using md_scan_prose_run [OF s4(1) nf(3), of "n2 + 3"] s4(2,3) ne by simp_all
  have scan: "md_scan ?S0 1 (split_nl content) = ?S5"
  proof -
    have "md_scan ?S0 1 (P1 @ [fo] @ C @ [fc] @ P2) =
          md_scan ?S1 (1 + int (length P1)) ([fo] @ C @ [fc] @ P2)"
      by (rule md_scan_append)
    also have "1 + int (length P1) = n1 + 1" by (simp add: n1_def)
    also have "md_scan ?S1 (n1 + 1) ([fo] @ C @ [fc] @ P2) = md_scan ?S2 (n1 + 2) (C @ [fc] @ P2)"
      by (simp add: add.assoc)
    also have "\<dots> = md_scan ?S3 (n1 + 2 + int (length C)) ([fc] @ P2)"
      by (rule md_scan_append)
    also have "n1 + 2 + int (length C) = n2 + 1 + 1" by (rule n12)
    also have "md_scan ?S3 (n2 + 1 + 1) ([fc] @ P2) = ?S5" by (simp add: add.assoc)
    finally show ?thesis by (simp only: lines)
  qed
  have "text_blocks (markdown_parse content path) =
     [mk_TextBlock (join_nl P1) 1 n1 False [] [],
      mk_TextBlock (join_nl C) (n1 + 1) (n2 + 1) True lang [],
      mk_TextBlock (join_nl P2) (n2 + 3) (int (length (split_nl content))) False [] []]"
    unfolding markdown_parse_def Let_def scan
    using s5 ne by simp
  then show ?thesis by (simp only: n1_def n2_def)
qed


lemma slice_assign_segment:
  assumes "a = int (length A)" "b = int (length A + length B)"
  shows "slice_assign (A @ B @ C) a b new = A @ new @ C"
  using assms by (simp add: slice_assign_def slice_bound_def Let_def)

lemma map_of_None_keys: "map_of t k = None \<longleftrightarrow> k \<notin> set (map fst t)"
  by (simp add: map_of_eq_None_iff)

lemma keys_desc_prose:
  assumes "set (map fst t) \<subseteq> {0, 2}"
  shows "keys_desc t =
     (case map_of t 2 of None \<Rightarrow> [] | Some v \<Rightarrow> [2])
     @ (case map_of t 0 of None \<Rightarrow> [] | Some v \<Rightarrow> [0])"
proof -
  have k: "keys_desc t = rev (sorted_list_of_set (set (map fst t)))"
    unfolding keys_desc_def by (simp only: sorted_list_of_set_sort_remdups)
  let ?S = "set (map fst t)"
  show ?thesis
  proof (cases "0 \<in> ?S")
    case z: True
    then have m0: "map_of t 0 \<noteq> None" by (simp add: map_of_None_keys)
    show ?thesis
    proof (cases "2 \<in> ?S")
      case True
      then have m2: "map_of t 2 \<noteq> None" by (simp add: map_of_None_keys)
      have "?S = {0, 2}" using assms z True by auto
      with k m0 m2 show ?thesis by auto
    next
      case False
      then have m2: "map_of t 2 = None" by (simp add: map_of_None_keys)
      have "?S = {0}" using assms z False by auto
      with k m0 m2 show ?thesis by auto
    qed
  next
    case z: False
    then have m0: "map_of t 0 = None" by (simp add: map_of_None_keys)
    show ?thesis
    proof (cases "2 \<in> ?S")
      case True
      then have m2: "map_of t 2 \<noteq> None" by (simp add: map_of_None_keys)
      have "?S = {2}" using assms z True by auto
      with k m0 m2 show ?thesis by auto
    next
      case False
      then have m2: "map_of t 2 = None" by (simp add: map_of_None_keys)
      have "?S = {}"
      proof (rule ccontr)
        assume "?S \<noteq> {}"
        then obtain x where x: "x \<in> ?S" by (meson ex_in_conv)
        then have "x = 0 \<or> x = 2" using assms by (meson insertE singletonD subsetD)
        with x z False show False by metis
      qed
      with k m0 m2 show ?thesis by auto
    qed
  qed
qed

lemma one_fence_inject:
  assumes lines: "split_nl content = P1 @ [fo] @ C @ [fc] @ P2"
    and blocks: "text_blocks pr =
     [mk_TextBlock (join_nl P1) 1 (int (length P1)) False [] [],
      mk_TextBlock (join_nl C) (int (length P1) + 1) (int (length P1 + length C) + 1) True lang [],
      mk_TextBlock (join_nl P2) (int (length P1 + length C) + 3)
        (int (length (split_nl content))) False [] []]"
    and keys: "set (map fst t) \<subseteq> {0, 2}"
  shows "markdown_inject_translations content t pr =
     Inr (join_nl ((case map_of t 0 of None \<Rightarrow> P1 | Some v \<Rightarrow> split_nl v)
                   @ [fo] @ C @ [fc]
                   @ (case map_of t 2 of None \<Rightarrow> P2 | Some v \<Rightarrow> split_nl v)))"
proof -
  let ?L = "P1 @ [fo] @ C @ [fc] @ P2"
  have two: "md_inject_step pr t ?L 2 = Inr (P1 @ [fo] @ C @ [fc] @ split_nl v)"
    if "map_of t 2 = Some v" for v
  proof -
    have "slice_assign ((P1 @ [fo] @ C @ [fc]) @ P2 @ []) (int (length P1 + length C) + 3 - 1)
            (int (length (split_nl content))) (split_nl v) = (P1 @ [fo] @ C @ [fc]) @ split_nl v @ []"
      by (rule slice_assign_segment) (simp_all add: lines)
    then show ?thesis
      using md_inject_step_index [of 2 pr t v ?L] that by (simp add: blocks)
  qed
  have zero: "md_inject_step pr t (P1 @ R) 0 = Inr (split_nl v @ R)"
    if "map_of t 0 = Some v" for v R
  proof -
    have "slice_assign ([] @ P1 @ R) (1 - 1) (int (length P1)) (split_nl v) = [] @ split_nl v @ R"
      by (rule slice_assign_segment) simp_all
    then show ?thesis
      using md_inject_step_index [of 0 pr t v "P1 @ R"] that by (simp add: blocks)
  qed
  show ?thesis
  proof (cases "map_of t 2")
    case None
    note n2 = None
    show ?thesis
    proof (cases "map_of t 0")
      case None
      with n2 show ?thesis
        by (simp add: markdown_inject_translations_def keys_desc_prose [OF keys] lines)
    next
      case (Some v0)
      with n2 zero [OF Some, of "[fo] @ C @ [fc] @ P2"] show ?thesis
        by (simp add: markdown_inject_translations_def keys_desc_prose [OF keys] lines)
    qed
  next
    case (Some v2)
    note s2 = Some
    show ?thesis
    proof (cases "map_of t 0")
      case None
      with s2 two [OF s2] show ?thesis
        by (simp add: markdown_inject_translations_def keys_desc_prose [OF keys] lines)
    next
      case (Some v0)
      with s2 two [OF s2] zero [OF Some, of "[fo] @ C @ [fc] @ split_nl v2"] show ?thesis
        by (simp add: markdown_inject_translations_def keys_desc_prose [OF keys] lines)
    qed
  qed
qed

text \<open>
  Claim C6 says that a file with one fenced code block between two prose paragraphs gives
  two text blocks that are not code and one that is. A code block is only appended when
  lines were collected inside the fence: for a fence with nothing between its delimiters
  \<open>parse\<close> returns the two prose blocks and no code block.
\<close>

theorem empty_fence_counterexample:
  "text_blocks (markdown_parse ''a\<newline>```\<newline>```\<newline>b'' None) =
     [mk_TextBlock ''a'' 1 1 False [] [], mk_TextBlock ''b'' 4 4 False [] []]"
  by code_simp

text \<open>
  Claim C6, amended. Let the lines of the content be a paragraph, a fence opener, one
  code line or more, a fence closer and a second paragraph, where the paragraphs have at
  least one line each and no line but the two delimiters starts with three backticks.
  Then \<open>parse\<close> returns exactly three text blocks: the first paragraph, not code; the
  lines between the delimiters, as code, with the language tag of the opener; the second
  paragraph, not code. Injecting a translations map that only has keys among the prose
  indices \<open>0\<close> and \<open>2\<close> replaces the translated paragraphs and leaves the opener, the code
  lines and the closer as they were.
\<close>

theorem fence_exclusion:
  assumes "split_nl content = P1 @ [fo] @ C @ [fc] @ P2"
    and "P1 \<noteq> []" and "C \<noteq> []" and "P2 \<noteq> []"
    and "list_all (\<lambda>l. \<not> is_fence l) P1"
    and "list_all (\<lambda>l. \<not> is_fence l) C"
    and "list_all (\<lambda>l. \<not> is_fence l) P2"
    and "code_match fo = Some lang" and "is_fence fc"
  shows "text_blocks (markdown_parse content path) =
     [mk_TextBlock (join_nl P1) 1 (int (length P1)) False [] [],
      mk_TextBlock (join_nl C) (int (length P1) + 1) (int (length P1 + length C) + 1) True lang [],
      mk_TextBlock (join_nl P2) (int (length P1 + length C) + 3)
        (int (length (split_nl content))) False [] []]
   \<and> (set (map fst t) \<subseteq> {0, 2} \<longrightarrow>
        markdown_inject_translations content t (markdown_parse content path) =
        Inr (join_nl ((case map_of t 0 of None \<Rightarrow> P1 | Some v \<Rightarrow> split_nl v)
                      @ [fo] @ C @ [fc]
                      @ (case map_of t 2 of None \<Rightarrow> P2 | Some v \<Rightarrow> split_nl v))))"
  using one_fence_blocks [OF assms] one_fence_inject [OF assms(1) one_fence_blocks [OF assms]]
  by blast

theorem fence_exclusion_witness:
  "text_blocks (markdown_parse ''intro\<newline>```python\<newline>x = 1\<newline>```\<newline>outro'' None) =
     [mk_TextBlock ''intro'' 1 1 False [] [],
      mk_TextBlock ''x = 1'' 2 3 True ''python'' [],
      mk_TextBlock ''outro'' 5 5 False [] []]
   \<and> markdown_inject_translations ''intro\<newline>```python\<newline>x = 1\<newline>```\<newline>outro''
        [(0, ''uno''), (2, ''dos\<newline>tres'')]
        (markdown_parse ''intro\<newline>```python\<newline>x = 1\<newline>```\<newline>outro'' None)
       = Inr ''uno\<newline>```python\<newline>x = 1\<newline>```\<newline>dos\<newline>tres''"
proof -
  let ?c = "''intro\<newline>```python\<newline>x = 1\<newline>```\<newline>outro''"
  let ?t = "[(0::int, ''uno''), (2, ''dos\<newline>tres'')]"
  have h1: "split_nl ?c = [''intro''] @ [''```python''] @ [''x = 1''] @ [''```''] @ [''outro'']"
    by code_simp
  have h2: "[''intro''] \<noteq> []" "[''x = 1''] \<noteq> []" "[''outro''] \<noteq> []" by simp_all
  have h3: "list_all (\<lambda>l. \<not> is_fence l) [''intro'']" "list_all (\<lambda>l. \<not> is_fence l) [''x = 1'']"
    "list_all (\<lambda>l. \<not> is_fence l) [''outro'']" by code_simp+
  have h4: "code_match ''```python'' = Some ''python''" by code_simp
  have h5: "is_fence ''```''" by code_simp
  have h6: "set (map fst ?t) \<subseteq> {0, 2}" by simp
  note f = fence_exclusion [OF h1 h2 h3 h4 h5, of None ?t]
  have a: "text_blocks (markdown_parse ?c None) =
     [mk_TextBlock ''intro'' 1 1 False [] [],
      mk_TextBlock ''x = 1'' 2 3 True ''python'' [],
      mk_TextBlock ''outro'' 5 5 False [] []]"
    using f h1 by simp
  have "markdown_inject_translations ?c ?t (markdown_parse ?c None) =
        Inr (join_nl ((case map_of ?t 0 of None \<Rightarrow> [''intro''] | Some v \<Rightarrow> split_nl v)
                      @ [''```python''] @ [''x = 1''] @ [''```'']
                      @ (case map_of ?t 2 of None \<Rightarrow> [''outro''] | Some v \<Rightarrow> split_nl v)))"
    using f h6 by blast
  also have "\<dots> = Inr ''uno\<newline>```python\<newline>x = 1\<newline>```\<newline>dos\<newline>tres''"
    by code_simp
  finally show ?thesis using a by simp
qed

section \<open>HTML comments in Markdown\<close>

lemma split_nl_no_NL: "l \<in> set (split_nl s) \<Longrightarrow> NL \<notin> set l"
proof (induction s arbitrary: l)
  case Nil
  then show ?case by simp
next
  case (Cons c cs)
  obtain x xs where e: "split_nl cs = x # xs"
    using split_nl_not_Nil [of cs] by (cases "split_nl cs") auto
  show ?case
  proof (cases "c = NL")
    case True
    with Cons show ?thesis by auto
  next
    case False
    with Cons.prems e have "l = c # x \<or> l \<in> set xs" by auto
    with Cons.IH e False show ?thesis by auto
  qed
qed

lemma split_join_nl:
  "ls \<noteq> [] \<Longrightarrow> list_all (\<lambda>l. NL \<notin> set l) ls \<Longrightarrow> split_nl (join_nl ls) = ls"
proof (induction ls rule: join_nl.induct)
  case 1
  then show ?case by simp
next
  case (2 l)
  then show ?case by (induction l) (auto split: list.splits)
next
  case (3 l m ls)
  have rest: "split_nl (join_nl (m # ls)) = m # ls"
    using 3 by simp
  have "NL \<notin> set l" using 3 by simp
  then have "split_nl (l @ NL # join_nl (m # ls)) = l # split_nl (join_nl (m # ls))"
    by (induction l) (auto split: list.splits)
  with rest show ?case by simp
qed

lemma md_line_run_inv:
  assumes "run_inv n st" "NL \<notin> set line"
  shows "run_inv (n + 1) (md_line st (n + 1) line)"
  using assms by (auto simp: run_inv_def md_line_def split: option.splits)

lemma md_scan_run_inv:
  assumes "run_inv n st" "list_all (\<lambda>l. NL \<notin> set l) ls"
  shows "run_inv (n + int (length ls)) (md_scan st (n + 1) ls)"
  using assms
proof (induction ls arbitrary: st n)
  case Nil
  then show ?case by simp
next
  case (Cons l ls)
  have "run_inv (n + 1) (md_line st (n + 1) l)"
    using Cons.prems by (intro md_line_run_inv) simp_all
  then have "run_inv (n + 1 + int (length ls)) (md_scan (md_line st (n + 1) l) (n + 1 + 1) ls)"
    using Cons.prems by (intro Cons.IH) simp_all
  then show ?case by (simp add: algebra_simps)
qed

lemma md_line_kept:
  assumes "kept k line st n" "NL \<notin> set l"
  shows "kept k line (md_line st (n + 1) l) (n + 1)"
proof -
  from assms(1) consider
    (flushed) "\<exists>b \<in> set (text_blocks (result st)).
          \<not> is_code b \<and> TextBlock.line_start b \<le> k \<and> k \<le> TextBlock.line_end b
          \<and> split_nl (TextBlock.text b) ! nat (k - TextBlock.line_start b) = line"
    | (pending) "\<not> in_code_block st" "block_start st \<le> k"
          "nat (k - block_start st) < length (current_block_lines st)"
          "current_block_lines st ! nat (k - block_start st) = line" "run_inv n st"
    unfolding kept_def by blast
  then show ?thesis
  proof cases
    case flushed
    then have "\<exists>b \<in> set (text_blocks (result (md_line st (n + 1) l))).
          \<not> is_code b \<and> TextBlock.line_start b \<le> k \<and> k \<le> TextBlock.line_end b
          \<and> split_nl (TextBlock.text b) ! nat (k - TextBlock.line_start b) = line"
      by (auto simp: md_line_def split: option.splits)
    then show ?thesis unfolding kept_def by blast
  next
    case pending
    have ne: "current_block_lines st \<noteq> []" using pending(3) by auto
    have r': "run_inv (n + 1) (md_line st (n + 1) l)"
      using pending(5) assms(2) by (rule md_line_run_inv)
    show ?thesis
    proof (cases "code_match l")
      case None
      then have "\<not> in_code_block (md_line st (n + 1) l)"
        "block_start (md_line st (n + 1) l) = block_start st"
        "current_block_lines (md_line st (n + 1) l) = current_block_lines st @ [l]"
        using pending(1) ne by (simp_all add: md_line_def)
      with pending r' show ?thesis
        unfolding kept_def by (simp add: nth_append)
    next
      case (Some lang)
      let ?b = "mk_TextBlock (join_nl (current_block_lines st)) (block_start st) n False [] []"
      have in_b: "?b \<in> set (text_blocks (result (md_line st (n + 1) l)))"
        using Some pending(1) ne by (simp add: md_line_def)
      have nl: "list_all (\<lambda>l. NL \<notin> set l) (current_block_lines st)"
        and cont: "block_start st + int (length (current_block_lines st)) = n + 1"
        using pending(1,5) ne by (simp_all add: run_inv_def)
      have "split_nl (TextBlock.text ?b) = current_block_lines st"
        using split_join_nl [OF ne nl] by simp
      moreover have "k \<le> n" using pending(2,3) cont by linarith
      ultimately have "\<not> is_code ?b \<and> TextBlock.line_start ?b \<le> k \<and> k \<le> TextBlock.line_end ?b
          \<and> split_nl (TextBlock.text ?b) ! nat (k - TextBlock.line_start ?b) = line"
        using pending by simp
      with in_b show ?thesis unfolding kept_def by blast
    qed
  qed
qed


lemma md_scan_kept:
  assumes "kept k line st n" "list_all (\<lambda>l. NL \<notin> set l) ls"
  shows "kept k line (md_scan st (n + 1) ls) (n + int (length ls))"
  using assms
proof (induction ls arbitrary: st n)
  case Nil
  then show ?case by simp
next
  case (Cons l ls)
  have "kept k line (md_line st (n + 1) l) (n + 1)"
    using Cons.prems by (intro md_line_kept) simp_all
  then have "kept k line (md_scan (md_line st (n + 1) l) (n + 1 + 1) ls) (n + 1 + int (length ls))"
    using Cons.prems by (intro Cons.IH) simp_all
  then show ?case by (simp add: algebra_simps)
qed

lemma md_line_comments_mono:
  "set (comments (result st)) \<subseteq> set (comments (result (md_line st i l)))"
  by (auto simp: md_line_def split: option.splits)

lemma md_scan_comments_mono:
  "set (comments (result st)) \<subseteq> set (comments (result (md_scan st i ls)))"
proof (induction ls arbitrary: st i)
  case Nil
  show ?case by simp
next
  case (Cons l ls)
  show ?case
    using md_line_comments_mono [of st i l] Cons [of "md_line st i l" "i + 1"] by auto
qed

lemma md_init_run_inv: "run_inv 0 (md_init path content)"
  by (simp add: run_inv_def md_init_def)

text \<open>
  Claim C7 says that every line outside a code fence that contains an HTML comment gives
  a comment holding the stripped inside of that HTML comment. The pattern of the code,
  \<open><!--(.+?)-->\<close>, asks for at least one character between the markers. A line that is
  the empty HTML comment \<open><!---->\<close> gives no comment at all; and where such an empty
  comment is followed by the HTML comment \<open><!--a-->\<close>, the match starts at the first
  opener and runs to the last closer, so the one comment of the result holds
  \<open>--> <!--a\<close> and no comment holds \<open>a\<close>.
\<close>

theorem html_comment_empty_counterexample:
  "comments (markdown_parse ''<!---->'' None) = []
   \<and> comments (markdown_parse ''<!----> <!--a-->'' None) =
       [mk_Comment ''--> <!--a'' MULTI_LINE 1 1 0 0 []]"
  by code_simp

text \<open>
  Claim C7, amended. Take a line of a Markdown file that is outside a code fence (an even
  number of fence lines precedes it and it is not a fence line itself) and a match of the
  pattern \<open><!--(.+?)-->\<close> in it, as \<open>re.findall\<close> finds the matches: from left to right
  without overlap, each with at least one character between the markers and ending at
  the first \<open>-->\<close> behind that character. Then \<open>parse\<close> returns a comment of type
  multi-line on that line whose text is the stripped inside of the match, and it returns
  a text block that is not code, covers that line, and holds the whole line, markers
  included, at the line's place in the block's text. So the text of the match is both in
  \<open>comments\<close> and inside a text block.
\<close>

theorem html_comment_twice:
  assumes j: "j < length (split_nl content)"
    and outside: "even (fences (take j (split_nl content)))"
    and nofence: "\<not> is_fence (split_nl content ! j)"
    and g: "g \<in> set (html_comments (split_nl content ! j))"
  shows "mk_Comment (strip g) MULTI_LINE (int j + 1) (int j + 1) 0 0 []
           \<in> set (comments (markdown_parse content path))
     \<and> (\<exists>b \<in> set (text_blocks (markdown_parse content path)).
           \<not> is_code b \<and> TextBlock.line_start b \<le> int j + 1 \<and> int j + 1 \<le> TextBlock.line_end b
           \<and> split_nl (TextBlock.text b) ! nat (int j + 1 - TextBlock.line_start b)
               = split_nl content ! j)"
proof -
  let ?lines = "split_nl content"
  let ?pre = "take j ?lines"
  let ?line = "?lines ! j"
  let ?post = "drop (Suc j) ?lines"
  let ?k = "int j + 1"
  let ?S1 = "md_scan (md_init path content) 1 ?pre"
  let ?S2 = "md_line ?S1 ?k ?line"
  let ?S3 = "md_scan ?S2 (?k + 1) ?post"
  have dec: "?lines = ?pre @ [?line] @ ?post"
    using j by (simp add: id_take_nth_drop)
  have nl: "list_all (\<lambda>l. NL \<notin> set l) ?lines"
    by (simp add: list_all_iff split_nl_no_NL)
  have nl_pre: "list_all (\<lambda>l. NL \<notin> set l) ?pre" and nl_post: "list_all (\<lambda>l. NL \<notin> set l) ?post"
    and nl_line: "NL \<notin> set ?line"
    using nl j by (auto simp: list_all_iff dest: in_set_takeD in_set_dropD)
  have lp: "int (length ?pre) = int j" using j by simp
  have out: "\<not> in_code_block ?S1"
    using outside by (simp add: md_scan_in_code md_init_def)
  have r1: "run_inv (int j) ?S1"
    using md_scan_run_inv [OF md_init_run_inv nl_pre, of path content] lp by simp
  have cm: "code_match ?line = None"
    using nofence by (simp add: is_fence_def)
  have s2: "\<not> in_code_block ?S2"
    "current_block_lines ?S2 = current_block_lines ?S1 @ [?line]"
    "block_start ?S2 = (if current_block_lines ?S1 = [] then ?k else block_start ?S1)"
    using md_line_prose [OF out nofence, of ?k] by simp_all
  have c2: "mk_Comment (strip g) MULTI_LINE ?k ?k 0 0 [] \<in> set (comments (result ?S2))"
    using out cm g by (simp add: md_line_def)
  have r2: "run_inv (int j + 1) ?S2"
    using r1 nl_line by (rule md_line_run_inv)
  have k2: "kept ?k ?line ?S2 (int j + 1)"
  proof (cases "current_block_lines ?S1 = []")
    case True
    with s2 r2 show ?thesis by (simp add: kept_def)
  next
    case False
    then have "block_start ?S1 + int (length (current_block_lines ?S1)) = int j + 1"
      using r1 out by (simp add: run_inv_def)
    then have "nat (?k - block_start ?S1) = length (current_block_lines ?S1)"
      "block_start ?S1 \<le> ?k"
      by linarith+
    with False s2 r2 show ?thesis by (simp add: kept_def)
  qed
  have scan: "md_scan (md_init path content) 1 ?lines = ?S3"
  proof -
    have "md_scan (md_init path content) 1 (?pre @ [?line] @ ?post) =
          md_scan ?S1 (1 + int (length ?pre)) ([?line] @ ?post)"
      by (rule md_scan_append)
    also have "1 + int (length ?pre) = ?k" using lp by simp
    also have "md_scan ?S1 ?k ([?line] @ ?post) = ?S3" by simp
    finally show ?thesis using dec by simp
  qed
  have total: "int j + 1 + int (length ?post) = int (length ?lines)"
    using j by simp
  have k3: "kept ?k ?line ?S3 (int (length ?lines))"
    using md_scan_kept [OF k2 nl_post] total by simp
  have c3: "mk_Comment (strip g) MULTI_LINE ?k ?k 0 0 [] \<in> set (comments (result ?S3))"
    using c2 md_scan_comments_mono [of ?S2 "?k + 1" ?post] by blast
  have first: "mk_Comment (strip g) MULTI_LINE ?k ?k 0 0 []
           \<in> set (comments (markdown_parse content path))"
    unfolding markdown_parse_def Let_def scan using c3 by simp
  have second: "\<exists>b \<in> set (text_blocks (markdown_parse content path)).
           \<not> is_code b \<and> TextBlock.line_start b \<le> ?k \<and> ?k \<le> TextBlock.line_end b
           \<and> split_nl (TextBlock.text b) ! nat (?k - TextBlock.line_start b) = ?line"
  proof -
    from k3 consider
      (flushed) "\<exists>b \<in> set (text_blocks (result ?S3)).
          \<not> is_code b \<and> TextBlock.line_start b \<le> ?k \<and> ?k \<le> TextBlock.line_end b
          \<and> split_nl (TextBlock.text b) ! nat (?k - TextBlock.line_start b) = ?line"
      | (pending) "\<not> in_code_block ?S3" "block_start ?S3 \<le> ?k"
          "nat (?k - block_start ?S3) < length (current_block_lines ?S3)"
          "current_block_lines ?S3 ! nat (?k - block_start ?S3) = ?line"
          "run_inv (int (length ?lines)) ?S3"
      unfolding kept_def by blast
    then show ?thesis
    proof cases
      case flushed
      then show ?thesis
        unfolding markdown_parse_def Let_def scan by auto
    next
      case pending
      have ne: "current_block_lines ?S3 \<noteq> []" using pending(3) by auto
      let ?b = "mk_TextBlock (join_nl (current_block_lines ?S3)) (block_start ?S3)
                  (int (length ?lines)) False [] []"
      have in_b: "?b \<in> set (text_blocks (markdown_parse content path))"
        unfolding markdown_parse_def Let_def scan using ne pending(1) by simp
      have nlc: "list_all (\<lambda>l. NL \<notin> set l) (current_block_lines ?S3)"
        and cont: "block_start ?S3 + int (length (current_block_lines ?S3)) = int (length ?lines) + 1"
        using pending(1,5) ne by (simp_all add: run_inv_def)
      have "split_nl (TextBlock.text ?b) = current_block_lines ?S3"
        using split_join_nl [OF ne nlc] by simp
      moreover have "?k \<le> int (length ?lines)" using j by simp
      ultimately have "\<not> is_code ?b \<and> TextBlock.line_start ?b \<le> ?k \<and> ?k \<le> TextBlock.line_end ?b
          \<and> split_nl (TextBlock.text ?b) ! nat (?k - TextBlock.line_start ?b) = ?line"
        using pending by simp
      with in_b show ?thesis by blast
    qed
  qed
  from first second show ?thesis by blast
qed

theorem html_comment_twice_witness:
  "mk_Comment ''c'' MULTI_LINE 2 2 0 0 []
     \<in> set (comments (markdown_parse ''intro\<newline>b <!-- c --> d\<newline>```\<newline>x\<newline>```'' None))
   \<and> (\<exists>b \<in> set (text_blocks
                   (markdown_parse ''intro\<newline>b <!-- c --> d\<newline>```\<newline>x\<newline>```'' None)).
         \<not> is_code b \<and> TextBlock.line_start b \<le> 2 \<and> 2 \<le> TextBlock.line_end b
         \<and> split_nl (TextBlock.text b) ! nat (2 - TextBlock.line_start b) = ''b <!-- c --> d'')"
proof -
  let ?c = "''intro\<newline>b <!-- c --> d\<newline>```\<newline>x\<newline>```''"
  have h1: "1 < length (split_nl ?c)" by code_simp
  have h2: "even (fences (take 1 (split_nl ?c)))" by code_simp
  have h3: "\<not> is_fence (split_nl ?c ! 1)" by code_simp
  have h4: "'' c '' \<in> set (html_comments (split_nl ?c ! 1))" by code_simp
  have e1: "strip '' c '' = ''c''" by code_simp
  have e2: "split_nl ?c ! 1 = ''b <!-- c --> d''" by code_simp
  have e3: "int 1 + 1 = 2" by simp
  show ?thesis
    using html_comment_twice [OF h1 h2 h3 h4, of None] unfolding e1 e2 e3 by blast
qed

end
